theory Spec2Isabelle
  imports Complex_Main "HOL-Library.Char_ord" "HOL-Library.List_Lexorder"
begin

section \<open>Python strings\<close>

text \<open>
  A Python \<open>str\<close> is modelled as a \<^typ>\<open>string\<close>, one \<^typ>\<open>char\<close> per code point;
  the model therefore covers the code points below 256 (ASCII and Latin-1).
  The string methods the sources call are written out for that range.
\<close>

datatype py_error = ValueError | IndexError | OperationalError | TimeoutException | OtherError

definition ord :: "char \<Rightarrow> nat" where
  "ord c = of_char c"

definition ascii_alpha :: "char \<Rightarrow> bool" where
  \<comment> \<open>\<open>c.isascii() and c.isalpha()\<close>, also the class \<open>[A-Za-z]\<close>\<close>
  "ascii_alpha c = ((65 \<le> ord c \<and> ord c \<le> 90) \<or> (97 \<le> ord c \<and> ord c \<le> 122))"

definition ascii_digit :: "char \<Rightarrow> bool" where
  "ascii_digit c = (48 \<le> ord c \<and> ord c \<le> 57)"

definition ascii_alnum :: "char \<Rightarrow> bool" where
  \<comment> \<open>the regular-expression class \<open>[A-Za-z0-9]\<close>\<close>
  "ascii_alnum c = (ascii_alpha c \<or> ascii_digit c)"

definition lower_char :: "char \<Rightarrow> char" where
  \<comment> \<open>\<open>str.lower()\<close> on one code point below 256: A-Z and the Latin-1 capitals
      U+00C0..U+00DE (without the multiplication sign U+00D7) move up by 32\<close>
  "lower_char c =
     (if (65 \<le> ord c \<and> ord c \<le> 90) \<or> (192 \<le> ord c \<and> ord c \<le> 222 \<and> ord c \<noteq> 215)
      then char_of (ord c + 32) else c)"

definition py_lower :: "string \<Rightarrow> string" where
  "py_lower s = map lower_char s"

definition py_isspace :: "char \<Rightarrow> bool" where
  \<comment> \<open>\<open>str.isspace()\<close> below 256: TAB..CR, FS..US, space, NEL, NBSP\<close>
  "py_isspace c =
     ((9 \<le> ord c \<and> ord c \<le> 13) \<or> (28 \<le> ord c \<and> ord c \<le> 32) \<or> ord c = 133 \<or> ord c = 160)"

definition py_strip :: "string \<Rightarrow> string" where
  \<comment> \<open>\<open>s.strip()\<close>\<close>
  "py_strip s = rev (dropWhile py_isspace (rev (dropWhile py_isspace s)))"

definition startswith :: "string \<Rightarrow> string \<Rightarrow> bool" where
  "startswith s p = (take (length p) s = p)"

definition endswith :: "string \<Rightarrow> string \<Rightarrow> bool" where
  "endswith s p = (length p \<le> length s \<and> drop (length s - length p) s = p)"

definition py_find :: "char \<Rightarrow> nat \<Rightarrow> string \<Rightarrow> nat option" where
  \<comment> \<open>\<open>s.find(c, start)\<close>; \<open>None\<close> stands for -1\<close>
  "py_find c start s =
     (if c \<in> set (drop start s)
      then Some (start + length (takeWhile (\<lambda>x. x \<noteq> c) (drop start s))) else None)"

definition py_rfind :: "char \<Rightarrow> string \<Rightarrow> nat option" where
  \<comment> \<open>\<open>s.rfind(c)\<close>\<close>
  "py_rfind c s =
     (if c \<in> set s then Some (length s - 1 - length (takeWhile (\<lambda>x. x \<noteq> c) (rev s))) else None)"

definition split1 :: "char \<Rightarrow> string \<Rightarrow> string \<times> string" where
  \<comment> \<open>\<open>s.split(c, 1)\<close> for a string that contains \<open>c\<close>\<close>
  "split1 c s = (takeWhile (\<lambda>x. x \<noteq> c) s, drop 1 (dropWhile (\<lambda>x. x \<noteq> c) s))"

fun split_on :: "char \<Rightarrow> string \<Rightarrow> string list" where
  \<comment> \<open>\<open>s.split(c)\<close>\<close>
  "split_on c [] = [[]]"
| "split_on c (x # xs) =
     (if x = c then [] # split_on c xs
      else (case split_on c xs of [] \<Rightarrow> [[x]] | seg # segs \<Rightarrow> (x # seg) # segs))"

section \<open>urllib.parse\<close>

text \<open>
  The functions of Python's standard module \<open>urllib.parse\<close> that \<open>util.py\<close> calls,
  written after \<open>Lib/urllib/parse.py\<close> of CPython 3.11.10 and 3.12.3. Two steps differ
  between the releases of CPython and are parameters:

  \<^item> the validation of a network location that holds both brackets:
    \<open>_check_bracketed_host\<close> on the text between the brackets in CPython 3.11.10,
    \<open>_check_bracketed_netloc\<close> on the whole network location in CPython 3.12.3; both
    ask the \<open>ipaddress\<close> module. \<open>chk nl\<close> holds when the validation of the network
    location \<open>nl\<close> returns without raising;

  \<^item> the test of \<open>urlunsplit\<close> that puts \<open>//\<close> in front of the path of a URL with an
    empty network location: \<open>slashes scheme url\<close> is what stands behind \<open>netloc or\<close>
    in that test. With a network location that is not empty the releases agree.

  \<open>_checknetloc\<close> never raises on code points below 256 and so has no branch here.
\<close>

record parse_result =
  scheme :: string
  netloc :: string
  path :: string
  params :: string
  query :: string
  fragment :: string

definition uses_netloc :: "string list" where
  "uses_netloc = ['''', ''ftp'', ''http'', ''gopher'', ''nntp'', ''telnet'',
                  ''imap'', ''wais'', ''file'', ''mms'', ''https'', ''shttp'',
                  ''snews'', ''prospero'', ''rtsp'', ''rtsps'', ''rtspu'', ''rsync'',
                  ''svn'', ''svn+ssh'', ''sftp'', ''nfs'', ''git'', ''git+ssh'',
                  ''ws'', ''wss'']"

definition uses_params :: "string list" where
  "uses_params = ['''', ''ftp'', ''hdl'', ''prospero'', ''http'', ''imap'',
                  ''https'', ''shttp'', ''rtsp'', ''rtsps'', ''rtspu'', ''sip'',
                  ''sips'', ''mms'', ''sftp'', ''tel'']"

definition scheme_char :: "char \<Rightarrow> bool" where
  "scheme_char c = (ascii_alnum c \<or> c = CHR ''+'' \<or> c = CHR ''-'' \<or> c = CHR ''.'')"

definition lstrip_c0 :: "string \<Rightarrow> string" where
  \<comment> \<open>\<open>url.lstrip(_WHATWG_C0_CONTROL_OR_SPACE)\<close>\<close>
  "lstrip_c0 url = dropWhile (\<lambda>c. ord c \<le> 32) url"

definition remove_unsafe :: "string \<Rightarrow> string" where
  \<comment> \<open>the removal of TAB, CR and LF (\<open>_UNSAFE_URL_BYTES_TO_REMOVE\<close>)\<close>
  "remove_unsafe url = filter (\<lambda>c. ord c \<noteq> 9 \<and> ord c \<noteq> 13 \<and> ord c \<noteq> 10) url"

definition split_scheme :: "string \<Rightarrow> string \<times> string" where
  \<comment> \<open>the scheme test of \<open>urlsplit\<close>: \<open>i = url.find(':')\<close>, \<open>i > 0\<close>, a letter first,
      scheme characters up to \<open>i\<close>\<close>
  "split_scheme url =
     (case py_find CHR '':'' 0 url of
        None \<Rightarrow> ('''', url)
      | Some i \<Rightarrow>
          if 0 < i \<and> ascii_alpha (hd url) \<and> list_all scheme_char (take i url)
          then (py_lower (take i url), drop (i + 1) url)
          else ('''', url))"

definition splitnetloc :: "string \<Rightarrow> nat \<Rightarrow> string \<times> string" where
  \<comment> \<open>\<open>_splitnetloc(url, start)\<close>: up to the first of \<open>/\<close>, \<open>?\<close>, \<open>#\<close>\<close>
  "splitnetloc url start =
     (let delim = fold (\<lambda>c d. case py_find c start url of None \<Rightarrow> d | Some w \<Rightarrow> min d w)
                       ''/?#'' (length url)
      in (drop start (take delim url), drop delim url))"

definition urlsplit :: "(string \<Rightarrow> bool) \<Rightarrow> string \<Rightarrow> py_error + parse_result" where
  "urlsplit chk url0 =
     (let url = remove_unsafe (lstrip_c0 url0);
          (sch, url) = split_scheme url;
          (nl, url) = (if take 2 url = ''//'' then splitnetloc url 2 else ('''', url))
      in if (CHR ''['' \<in> set nl \<and> CHR '']'' \<notin> set nl) \<or> (CHR '']'' \<in> set nl \<and> CHR ''['' \<notin> set nl)
         then Inl ValueError
         else if CHR ''['' \<in> set nl \<and> CHR '']'' \<in> set nl \<and> \<not> chk nl
         then Inl ValueError
         else
           let (url, frag) = (if CHR ''#'' \<in> set url then split1 CHR ''#'' url else (url, ''''));
               (url, qry) = (if CHR ''?'' \<in> set url then split1 CHR ''?'' url else (url, ''''))
           in Inr \<lparr>scheme = sch, netloc = nl, path = url, params = '''',
                   query = qry, fragment = frag\<rparr>)"

definition splitparams :: "string \<Rightarrow> string \<times> string" where
  \<comment> \<open>\<open>_splitparams(url)\<close>; \<open>url[:-1]\<close> is \<open>butlast url\<close>\<close>
  "splitparams url =
     (if CHR ''/'' \<in> set url
      then (case py_find CHR '';'' (the (py_rfind CHR ''/'' url)) url of
              None \<Rightarrow> (url, '''')
            | Some i \<Rightarrow> (take i url, drop (i + 1) url))
      else (case py_find CHR '';'' 0 url of
              None \<Rightarrow> (butlast url, url)
            | Some i \<Rightarrow> (take i url, drop (i + 1) url)))"

definition urlparse :: "(string \<Rightarrow> bool) \<Rightarrow> string \<Rightarrow> py_error + parse_result" where
  "urlparse chk url =
     (case urlsplit chk url of
        Inl e \<Rightarrow> Inl e
      | Inr r \<Rightarrow>
          if scheme r \<in> set uses_params \<and> CHR '';'' \<in> set (path r)
          then (let (u, p) = splitparams (path r) in Inr (r\<lparr>path := u, params := p\<rparr>))
          else Inr r)"

definition urlunsplit ::
  "(string \<Rightarrow> string \<Rightarrow> bool) \<Rightarrow> string \<Rightarrow> string \<Rightarrow> string \<Rightarrow> string \<Rightarrow> string \<Rightarrow> string" where
  "urlunsplit slashes sch nl url0 qry frag =
     (let url = (if nl \<noteq> '''' \<or> slashes sch url0
                 then ''//'' @ nl @ (if url0 \<noteq> '''' \<and> take 1 url0 \<noteq> ''/'' then ''/'' @ url0 else url0)
                 else url0);
          url = (if sch \<noteq> '''' then sch @ '':'' @ url else url);
          url = (if qry \<noteq> '''' then url @ ''?'' @ qry else url);
          url = (if frag \<noteq> '''' then url @ ''#'' @ frag else url)
      in url)"

definition slashes_3_11 :: "string \<Rightarrow> string \<Rightarrow> bool" where
  \<comment> \<open>CPython 3.11.10: \<open>if netloc or (scheme and scheme in uses_netloc) or url[:2] == '//'\<close>\<close>
  "slashes_3_11 sch url = ((sch \<noteq> '''' \<and> sch \<in> set uses_netloc) \<or> take 2 url = ''//'')"

definition slashes_3_12 :: "string \<Rightarrow> string \<Rightarrow> bool" where
  \<comment> \<open>CPython 3.12.3: \<open>if netloc or (scheme and scheme in uses_netloc and url[:2] != '//')\<close>,
      where \<open>uses_netloc\<close> has the further entry \<open>itms-services\<close>\<close>
  "slashes_3_12 sch url =
     (sch \<noteq> '''' \<and> sch \<in> set (uses_netloc @ [''itms-services'']) \<and> take 2 url \<noteq> ''//'')"

definition urlunparse :: "(string \<Rightarrow> string \<Rightarrow> bool) \<Rightarrow> parse_result \<Rightarrow> string" where
  "urlunparse slashes r =
     urlunsplit slashes (scheme r) (netloc r)
       (if params r \<noteq> '''' then path r @ '';'' @ params r else path r)
       (query r) (fragment r)"

definition urldefrag ::
  "(string \<Rightarrow> bool) \<Rightarrow> (string \<Rightarrow> string \<Rightarrow> bool) \<Rightarrow> string \<Rightarrow> py_error + string \<times> string" where
  "urldefrag chk slashes url =
     (if CHR ''#'' \<in> set url
      then (case urlparse chk url of
              Inl e \<Rightarrow> Inl e
            | Inr r \<Rightarrow> Inr (urlunparse slashes (r\<lparr>fragment := ''''\<rparr>), fragment r))
      else Inr (url, ''''))"

section \<open>util.py\<close>

definition is_absolute_url :: "(string \<Rightarrow> bool) \<Rightarrow> string \<Rightarrow> py_error + bool" where
  "is_absolute_url chk url =
     (if url = '''' then Inr False
      else (case urlparse chk url of
              Inl e \<Rightarrow> Inl e
            | Inr parsed \<Rightarrow> Inr (scheme parsed \<in> {''http'', ''https''} \<and> netloc parsed \<noteq> '''')))"

definition remove_fragment ::
  "(string \<Rightarrow> bool) \<Rightarrow> (string \<Rightarrow> string \<Rightarrow> bool) \<Rightarrow> string \<Rightarrow> py_error + string" where
  "remove_fragment chk slashes url =
     (if url = '''' then Inr url
      else (case urldefrag chk slashes url of
              Inl e \<Rightarrow> Inl e
            | Inr (defragmented, _) \<Rightarrow> Inr defragmented))"

definition ext_match :: "string \<Rightarrow> string option" where
  \<comment> \<open>\<open>_FILENAME_EXT_PATTERN.search(last)\<close> for the pattern \<open>\.([A-Za-z0-9]+)$\<close>, giving
      group 1: a dot and a non-empty alphanumeric run at the end of the string, or just
      before a final newline (where \<open>$\<close> matches as well)\<close>
  "ext_match s0 =
     (let s = (if s0 \<noteq> '''' \<and> last s0 = CHR 0x0A then butlast s0 else s0);
          w = rev (takeWhile ascii_alnum (rev s));
          r = drop (length w) (rev s)
      in if w \<noteq> '''' \<and> r \<noteq> '''' \<and> hd r = CHR ''.'' then Some w else None)"

definition filename_extension :: "string \<Rightarrow> string" where
  \<comment> \<open>\<open>_filename_extension\<close>\<close>
  "filename_extension p =
     (if p = '''' then ''''
      else (let segments = filter (\<lambda>seg. seg \<noteq> '''') (split_on CHR ''/'' p)
            in if segments = [] then ''''
               else (case ext_match (last segments) of
                       Some g \<Rightarrow> ''.'' @ py_lower g
                     | None \<Rightarrow> '''')))"

definition is_url_ok_to_follow :: "(string \<Rightarrow> bool) \<Rightarrow> string \<Rightarrow> string \<Rightarrow> py_error + bool" where
  "is_url_ok_to_follow chk url domain0 =
     (case is_absolute_url chk url of
        Inl e \<Rightarrow> Inl e
      | Inr False \<Rightarrow> Inr False
      | Inr True \<Rightarrow>
          if CHR ''@'' \<in> set url \<or> startswith (py_lower url) ''mailto:'' then Inr False
          else (case urlparse chk url of
                  Inl e \<Rightarrow> Inl e
                | Inr parsed \<Rightarrow>
                    let nl = py_lower (netloc parsed);
                        domain = py_lower domain0
                    in if \<not> (nl = domain \<or> endswith nl (''.'' @ domain)) then Inr False
                       else
                         let pth = (if path parsed = '''' then ''/'' else path parsed);
                             ext = filename_extension pth
                         in if endswith pth ''/'' then Inr True
                            else if ext = '''' then Inr True
                            else if ext = ''.html'' then Inr True
                            else Inr False))"

definition normalize_url ::
  "(string \<Rightarrow> bool) \<Rightarrow> (string \<Rightarrow> string \<Rightarrow> bool) \<Rightarrow> string \<Rightarrow> py_error + string" where
  "normalize_url chk slashes url0 =
     (if url0 = '''' then Inr ''''
      else (case remove_fragment chk slashes url0 of
              Inl e \<Rightarrow> Inl e
            | Inr url \<Rightarrow>
                (case urlparse chk url of
                   Inl e \<Rightarrow> Inl e
                 | Inr parsed \<Rightarrow>
                     Inr (urlunparse slashes (parsed\<lparr>scheme := py_lower (scheme parsed),
                                                     netloc := py_lower (netloc parsed)\<rparr>)))))"

definition accept_host :: "string \<Rightarrow> bool" where
  \<comment> \<open>a validation that lets every network location through\<close>
  "accept_host nl = True"

section \<open>The shape of a parsed URL\<close>

text \<open>
  Predicates that describe what \<open>urlparse\<close> returns; the proofs about
  \<open>normalize_url\<close> go through them.
\<close>

definition delim_char :: "char \<Rightarrow> bool" where
  "delim_char c = (c = CHR ''/'' \<or> c = CHR ''?'' \<or> c = CHR ''#'')"

definition unsafe_char :: "char \<Rightarrow> bool" where
  "unsafe_char c = (ord c = 9 \<or> ord c = 13 \<or> ord c = 10)"

definition scheme_valid :: "string \<Rightarrow> bool" where
  \<comment> \<open>the string starts with a scheme and a colon\<close>
  "scheme_valid s =
     (CHR '':'' \<in> set s \<and> takeWhile (\<lambda>x. x \<noteq> CHR '':'') s \<noteq> [] \<and> ascii_alpha (hd s)
      \<and> list_all scheme_char (takeWhile (\<lambda>x. x \<noteq> CHR '':'') s))"

definition brackets_ok :: "(string \<Rightarrow> bool) \<Rightarrow> string \<Rightarrow> bool" where
  \<comment> \<open>the two bracket checks of \<open>urlsplit\<close> pass\<close>
  "brackets_ok chk nl =
     (\<not> ((CHR ''['' \<in> set nl \<and> CHR '']'' \<notin> set nl) \<or> (CHR '']'' \<in> set nl \<and> CHR ''['' \<notin> set nl))
      \<and> \<not> (CHR ''['' \<in> set nl \<and> CHR '']'' \<in> set nl \<and> \<not> chk nl))"

definition rejoin :: "parse_result \<Rightarrow> string" where
  \<comment> \<open>path and parameters as \<open>urlunparse\<close> puts them together\<close>
  "rejoin c = (if params c \<noteq> '''' then path c @ '';'' @ params c else path c)"

definition wf_parse :: "(string \<Rightarrow> bool) \<Rightarrow> parse_result \<Rightarrow> bool" where
  "wf_parse chk c =
     (list_all (\<lambda>x. \<not> unsafe_char x) (scheme c @ netloc c @ path c @ params c @ query c)
      \<and> (scheme c = '''' \<or> (ascii_alpha (hd (scheme c)) \<and> list_all scheme_char (scheme c)
                             \<and> py_lower (scheme c) = scheme c))
      \<and> list_all (\<lambda>x. \<not> delim_char x) (netloc c)
      \<and> brackets_ok chk (netloc c)
      \<and> CHR ''?'' \<notin> set (path c) \<and> CHR ''#'' \<notin> set (path c)
      \<and> CHR ''?'' \<notin> set (params c) \<and> CHR ''#'' \<notin> set (params c)
      \<and> CHR ''#'' \<notin> set (query c)
      \<and> (netloc c = '''' \<or> rejoin c = '''' \<or> hd (rejoin c) = CHR ''/'')
      \<and> (if scheme c \<in> set uses_params
          then CHR ''/'' \<notin> set (params c)
               \<and> CHR '';'' \<notin> set (takeWhile (\<lambda>x. x \<noteq> CHR ''/'') (rev (path c)))
          else params c = '''')
      \<and> (scheme c \<noteq> '''' \<or> \<not> scheme_valid (rejoin c))
      \<and> (scheme c \<noteq> '''' \<or> rejoin c = '''' \<or> 32 < ord (hd (rejoin c))))"

definition canon :: "parse_result \<Rightarrow> parse_result" where
  \<comment> \<open>the components \<open>normalize_url\<close> puts back together: the network location in
      lower case, no fragment\<close>
  "canon c = c\<lparr>netloc := py_lower (netloc c), fragment := ''''\<rparr>"

definition canon_text :: "parse_result \<Rightarrow> string" where
  \<comment> \<open>the text of a URL with a network location, put together from its components\<close>
  "canon_text c =
     (if scheme c \<noteq> '''' then scheme c @ '':'' else '''')
     @ ''//'' @ py_lower (netloc c) @ path c
     @ (if params c \<noteq> '''' then '';'' @ params c else '''')
     @ (if query c \<noteq> '''' then ''?'' @ query c else '''')"

definition after_scheme :: "string \<Rightarrow> string \<times> string" where
  \<comment> \<open>the network-location step of \<open>urlsplit\<close>, on lists\<close>
  "after_scheme y =
     (case y of
        a # b # r \<Rightarrow> if a = CHR ''/'' \<and> b = CHR ''/''
                     then (takeWhile (\<lambda>x. \<not> delim_char x) r, dropWhile (\<lambda>x. \<not> delim_char x) r)
                     else ('''', y)
      | _ \<Rightarrow> ('''', y))"

section \<open>The course store\<close>

text \<open>
  A \<open>row\<close> is the dictionary that \<open>parse_course_detail\<close> builds and \<open>upsert_course\<close>
  reads with \<open>row.get\<close>: the \<open>url\<close> is the \<open>str\<close> the parser was given, every other
  entry may be \<open>None\<close>.
\<close>

record row =
  url :: string
  title :: "string option"
  category :: "string option"
  modality :: "string option"
  duration :: "string option"
  price :: "string option"
  start_date :: "string option"
  location :: "string option"
  value_proposal :: "string option"
  tutoria :: "string option"
  description :: "string option"
  raw_html :: "string option"
  last_crawled_at :: "string option"

text \<open>
  Modelled from the spec: the schema \<open>sql/01_schema.sql\<close> is not among the sources. The
  tables are the ones the statements of the sources name: \<open>courses\<close>, keyed by a unique
  \<open>url\<close>, each row with its integer \<open>course_id\<close>; \<open>terms (term_id, term)\<close> and
  \<open>synonyms (term_id, synonym)\<close>. Each table is the list of its rows in storage order.
\<close>

record db =
  courses :: "(int \<times> row) list"
  terms :: "(int \<times> string) list"
  synonyms :: "(int \<times> string option) list"

definition unique_urls :: "db \<Rightarrow> bool" where
  \<comment> \<open>the uniqueness constraint on \<open>courses.url\<close>\<close>
  "unique_urls con = distinct (map (\<lambda>(i, r). url r) (courses con))"

definition next_course_id :: "(int \<times> row) list \<Rightarrow> int" where
  \<comment> \<open>Modelled from the spec: the row id of a new row, one above the largest in use\<close>
  "next_course_id cs = (if cs = [] then 1 else fold max (map fst cs) 0 + 1)"

definition truthy :: "string option \<Rightarrow> bool" where
  \<comment> \<open>Python's truth value of a \<open>str\<close> or \<open>None\<close>\<close>
  "truthy v = (case v of None \<Rightarrow> False | Some s \<Rightarrow> s \<noteq> '''')"

fun join :: "string \<Rightarrow> string list \<Rightarrow> string" where
  \<comment> \<open>\<open>sep.join(parts)\<close>\<close>
  "join sep [] = ''''"
| "join sep [p] = p"
| "join sep (p # q # ps) = p @ sep @ join sep (q # ps)"

section \<open>crawler.py: persistence\<close>

definition upsert_course :: "db \<Rightarrow> row \<Rightarrow> db" where
  \<comment> \<open>\<open>INSERT ... ON CONFLICT(url) DO UPDATE SET\<close> every other column\<close>
  "upsert_course con rw =
     (if url rw \<in> set (map (\<lambda>(i, r). url r) (courses con))
      then con\<lparr>courses := map (\<lambda>(i, r). if url r = url rw then (i, rw) else (i, r)) (courses con)\<rparr>
      else con\<lparr>courses := courses con @ [(next_course_id (courses con), rw)]\<rparr>)"

section \<open>compare.py\<close>

text \<open>
  The scikit-learn calls are parameters. \<open>fit a b\<close> is \<open>vec.fit_transform([a, b])\<close>,
  which returns the two row vectors or raises \<open>ValueError\<close> (an empty vocabulary);
  \<open>csim x y\<close> is \<open>cosine_similarity(X[0], X[1])[0, 0]\<close>, a float read as a real number.
\<close>

datatype 'v fit_result = Fitted 'v 'v | RaisesValueError

definition tfidf_cosine ::
  "(string \<Rightarrow> string \<Rightarrow> 'v fit_result) \<Rightarrow> ('v \<Rightarrow> 'v \<Rightarrow> real) \<Rightarrow> string option list \<Rightarrow> py_error + real" where
  \<comment> \<open>\<open>_tfidf_cosine\<close>\<close>
  "tfidf_cosine fit csim texts =
     (case texts of
        t0 # t1 # _ \<Rightarrow>
          (let a = py_strip (case t0 of None \<Rightarrow> '''' | Some s \<Rightarrow> s);
               b = py_strip (case t1 of None \<Rightarrow> '''' | Some s \<Rightarrow> s)
           in if a = '''' \<and> b = '''' then Inr 0
              else if a = '''' \<or> b = '''' then Inr 0
              else (case fit a b of
                      RaisesValueError \<Rightarrow> Inr 0
                    | Fitted x0 x1 \<Rightarrow>
                        (let sim = csim x0 x1;
                             sim = (if sim < 0 then 0 else sim);
                             sim = (if sim > 1 then 1 else sim)
                         in Inr sim)))
      | _ \<Rightarrow> Inl IndexError)"

definition compare_texts ::
  "(string \<Rightarrow> string \<Rightarrow> 'v fit_result) \<Rightarrow> ('v \<Rightarrow> 'v \<Rightarrow> real) \<Rightarrow> string \<Rightarrow> string \<Rightarrow> py_error + real" where
  "compare_texts fit csim a b = tfidf_cosine fit csim [Some a, Some b]"

definition get_text :: "db \<Rightarrow> int \<Rightarrow> string" where
  \<comment> \<open>the inner \<open>get_text\<close> of \<open>compare_course_ids\<close>\<close>
  "get_text con cid =
     (case filter (\<lambda>(i, r). i = cid) (courses con) of
        [] \<Rightarrow> ''''
      | (i, r) # _ \<Rightarrow>
          join '' '' (map the (filter truthy [title r, description r, value_proposal r, tutoria r])))"

definition compare_course_ids ::
  "(string \<Rightarrow> string \<Rightarrow> 'v fit_result) \<Rightarrow> ('v \<Rightarrow> 'v \<Rightarrow> real) \<Rightarrow> db \<Rightarrow> int \<Rightarrow> int \<Rightarrow> py_error + real" where
  "compare_course_ids fit csim con id_a id_b = compare_texts fit csim (get_text con id_a) (get_text con id_b)"

definition select_id_by_url :: "db \<Rightarrow> string \<Rightarrow> int option" where
  \<comment> \<open>\<open>SELECT course_id FROM courses WHERE url=?\<close>, \<open>fetchone()\<close>\<close>
  "select_id_by_url con u =
     (case filter (\<lambda>(i, r). url r = u) (courses con) of [] \<Rightarrow> None | (i, r) # _ \<Rightarrow> Some i)"

definition compare_course_urls ::
  "(string \<Rightarrow> string \<Rightarrow> 'v fit_result) \<Rightarrow> ('v \<Rightarrow> 'v \<Rightarrow> real) \<Rightarrow> db \<Rightarrow> string \<Rightarrow> string \<Rightarrow> py_error + real" where
  "compare_course_urls fit csim con url_a url_b =
     (let ra = select_id_by_url con url_a;
          rb = select_id_by_url con url_b
      in case (ra, rb) of
           (Some a, Some b) \<Rightarrow> compare_course_ids fit csim con a b
         | _ \<Rightarrow> Inr 0)"

definition sql_lower_char :: "char \<Rightarrow> char" where
  \<comment> \<open>SQLite folds the case of ASCII letters only\<close>
  "sql_lower_char c = (if 65 \<le> ord c \<and> ord c \<le> 90 then char_of (ord c + 32) else c)"

definition sql_lower :: "string \<Rightarrow> string" where
  \<comment> \<open>SQLite's \<open>lower()\<close>\<close>
  "sql_lower s = map sql_lower_char s"

fun sql_like :: "string \<Rightarrow> string \<Rightarrow> bool" where
  \<comment> \<open>the matcher of SQLite's \<open>text LIKE pattern\<close>, pattern first: \<open>%\<close> matches any
      run, \<open>_\<close> any one character, any other character itself up to ASCII case\<close>
  "sql_like [] [] = True"
| "sql_like [] (c # cs) = False"
| "sql_like (p # ps) [] = (p = CHR ''%'' \<and> sql_like ps [])"
| "sql_like (p # ps) (c # cs) =
     (if p = CHR ''%'' then sql_like ps (c # cs) \<or> sql_like (p # ps) cs
      else (p = CHR ''_'' \<or> sql_lower_char p = sql_lower_char c) \<and> sql_like ps cs)"

definition c_string :: "string \<Rightarrow> string" where
  \<comment> \<open>a text as the matcher reads it: a C string, which ends at the first NUL\<close>
  "c_string s = takeWhile (\<lambda>c. c \<noteq> CHR 0x00) s"

definition utf8_length :: "string \<Rightarrow> nat" where
  \<comment> \<open>the number of bytes SQLite holds for a text: one for a code point below 128,
      two for the others below 256\<close>
  "utf8_length s = sum_list (map (\<lambda>c. if ord c < 128 then 1 else 2) s)"

definition like_pattern_limit :: nat where
  \<comment> \<open>\<open>SQLITE_MAX_LIKE_PATTERN_LENGTH\<close>, 50000 bytes unless the library was built otherwise\<close>
  "like_pattern_limit = 50000"

definition like_too_complex :: "string \<Rightarrow> bool" where
  \<comment> \<open>the pattern is longer than the limit: evaluating \<open>LIKE\<close> on any row then fails
      with \<open>OperationalError\<close> (\<open>LIKE or GLOB pattern too complex\<close>)\<close>
  "like_too_complex pat = (like_pattern_limit < utf8_length pat)"

definition contains_pattern :: "string \<Rightarrow> string" where
  \<comment> \<open>\<open>f"%{a_contains}%"\<close>\<close>
  "contains_pattern s = ''%'' @ s @ ''%''"

definition title_like :: "string \<Rightarrow> row \<Rightarrow> bool" where
  \<comment> \<open>\<open>title LIKE pat\<close> for a pattern within the limit; a \<open>NULL\<close> title matches nothing\<close>
  "title_like pat r =
     (case title r of None \<Rightarrow> False | Some t \<Rightarrow> sql_like (c_string pat) (c_string t))"

definition select_id_by_title :: "db \<Rightarrow> string \<Rightarrow> py_error + int option" where
  \<comment> \<open>\<open>con.execute("SELECT course_id FROM courses WHERE title LIKE ? ORDER BY course_id
      LIMIT 1", (pat,)).fetchone()\<close>: the length of the pattern is checked when \<open>LIKE\<close>
      is evaluated on the first row, whatever its title; with no row nothing is evaluated\<close>
  "select_id_by_title con pat =
     (if courses con \<noteq> [] \<and> like_too_complex pat then Inl OperationalError
      else Inr (case map fst (filter (\<lambda>(i, r). title_like pat r) (courses con)) of
                  [] \<Rightarrow> None
                | i # is \<Rightarrow> Some (fold min is i)))"

definition compare_course_titles_contains ::
  "(string \<Rightarrow> string \<Rightarrow> 'v fit_result) \<Rightarrow> ('v \<Rightarrow> 'v \<Rightarrow> real) \<Rightarrow> db \<Rightarrow> string \<Rightarrow> string \<Rightarrow> py_error + real" where
  "compare_course_titles_contains fit csim con a_contains b_contains =
     (case select_id_by_title con (contains_pattern a_contains) of
        Inl e \<Rightarrow> Inl e
      | Inr ra \<Rightarrow>
     (case select_id_by_title con (contains_pattern b_contains) of
        Inl e \<Rightarrow> Inl e
      | Inr rb \<Rightarrow>
          (case (ra, rb) of
             (Some a, Some b) \<Rightarrow> compare_course_ids fit csim con a b
           | _ \<Rightarrow> Inr 0)))"

section \<open>search.py\<close>

text \<open>
  Every \<open>con.execute\<close> of \<open>search.py\<close> is recorded: the functions return their value
  together with the statements they ran, in order.
\<close>

datatype stmt =
    SelectTerm string
  | SelectSynonyms int
  | MatchRanked string int
  | MatchUnranked string int

definition py_set_add :: "string \<Rightarrow> string list \<Rightarrow> string list" where
  \<comment> \<open>\<open>s.add(x)\<close> on a set kept as the list of its elements in insertion order\<close>
  "py_set_add x xs = (if x \<in> set xs then xs else xs @ [x])"

definition get_synonyms :: "db \<Rightarrow> string \<Rightarrow> string list \<times> stmt list" where
  "get_synonyms con term =
     (let t = py_lower (py_strip term)
      in case filter (\<lambda>(i, tm). sql_lower tm = t) (terms con) of
           [] \<Rightarrow> ([], [SelectTerm t])
         | (term_id, tm) # _ \<Rightarrow>
             (fold (\<lambda>(i, syn) acc. if truthy syn then py_set_add (py_lower (py_strip (the syn))) acc else acc)
                   (filter (\<lambda>(i, syn). i = term_id) (synonyms con)) [],
              [SelectTerm t, SelectSynonyms term_id]))"

definition found_synonyms :: "db \<Rightarrow> string \<Rightarrow> string set" where
  \<comment> \<open>the set that \<open>get_synonyms\<close> returns, without the loop: the first term row
      whose SQLite \<open>lower(term)\<close> equals the query in Python's lower case, and the
      non-empty synonyms stored for it\<close>
  "found_synonyms con t =
     (case filter (\<lambda>(i, tm). sql_lower tm = py_lower (py_strip t)) (terms con) of
        [] \<Rightarrow> {}
      | (term_id, tm) # _ \<Rightarrow>
          set (map (\<lambda>(i, syn). py_lower (py_strip (the syn)))
                   (filter (\<lambda>(i, syn). i = term_id \<and> truthy syn) (synonyms con))))"

definition fts_quote :: "string \<Rightarrow> string" where
  \<comment> \<open>\<open>f'"{p}"' if " " in p else p\<close>\<close>
  "fts_quote p = (if CHR '' '' \<in> set p then [CHR 0x22] @ p @ [CHR 0x22] else p)"

definition fts_group :: "(string list \<Rightarrow> string list) \<Rightarrow> string \<Rightarrow> string list \<Rightarrow> string" where
  \<comment> \<open>lines 27 to 29 of \<open>build_fts_query\<close>: the set \<open>parts\<close>, read in the order \<open>iter\<close>
      gives (Python leaves the iteration order of a set open), quoted and joined\<close>
  "fts_group iter t syns =
     (let parts = fold py_set_add (map py_lower syns) [py_lower t];
          parts_q = map fts_quote (iter parts)
      in ''('' @ join '' OR '' parts_q @ '')'')"

definition build_fts_query ::
  "(string list \<Rightarrow> string list) \<Rightarrow> string list \<Rightarrow> db \<Rightarrow> string \<times> stmt list" where
  "build_fts_query iter tms con =
     (let (groups, tr) =
            fold (\<lambda>t0 (groups, tr).
                    let t = py_strip t0
                    in if t = '''' then (groups, tr)
                       else (let (syns, q) = get_synonyms con t
                             in (groups @ [fts_group iter t syns], tr @ q)))
                 tms ([], [])
      in (if groups \<noteq> [] then join '' OR '' groups else '''', tr))"

definition search ::
  "(string list \<Rightarrow> string list) \<Rightarrow> (stmt \<Rightarrow> py_error + 'r list) \<Rightarrow> db \<Rightarrow> string list \<Rightarrow> int
   \<Rightarrow> (py_error + 'r list) \<times> stmt list" where
  \<comment> \<open>\<open>engine\<close> is the full-text engine: what \<open>con.execute\<close> gives for the ranked and
      for the unranked statement\<close>
  "search iter engine con interests top_n =
     (let (match, tr) = build_fts_query iter interests con
      in if match = '''' then (Inr [], tr)
         else (case engine (MatchRanked match top_n) of
                 Inl OperationalError \<Rightarrow>
                   (engine (MatchUnranked match top_n),
                    tr @ [MatchRanked match top_n, MatchUnranked match top_n])
               | res \<Rightarrow> (res, tr @ [MatchRanked match top_n])))"

section \<open>crawler.py: catalogue pages\<close>

text \<open>
  The browser and the HTML parser are outside the sources. A rendered page is given by
  what the selectors of the sources find on it.
\<close>

record card =
  card_type :: "string option"  \<comment> \<open>text of \<open>div.card-type\<close>, \<open>get_text(strip=True)\<close>\<close>
  body_href :: "string option"  \<comment> \<open>\<open>href\<close> of the first \<open>.card-body a[href]\<close>\<close>
  first_href :: "string option"  \<comment> \<open>\<open>href\<close> of the first \<open>a[href]\<close>\<close>

definition contains :: "string \<Rightarrow> string \<Rightarrow> bool" where
  \<comment> \<open>\<open>sub in s\<close>\<close>
  "contains s sub = list_ex (\<lambda>i. take (length sub) (drop i s) = sub) [0..<Suc (length s)]"

definition is_course_card :: "card \<Rightarrow> bool" where
  "is_course_card card_el =
     (case card_type card_el of
        None \<Rightarrow> False
      | Some txt \<Rightarrow> contains (py_lower txt) ''curso'')"

definition extract_course_link_from_card ::
  "(string \<Rightarrow> string \<Rightarrow> py_error + string) \<Rightarrow> card \<Rightarrow> string \<Rightarrow> py_error + string option" where
  \<comment> \<open>\<open>urljoin\<close> raises \<open>ValueError\<close> where \<open>urlparse\<close> does, for instance on \<open>//[\<close>\<close>
  "extract_course_link_from_card urljoin card_el base_url =
     (case (case body_href card_el of Some h \<Rightarrow> Some h | None \<Rightarrow> first_href card_el) of
        None \<Rightarrow> Inr None
      | Some h \<Rightarrow>
          (let href = py_strip h
           in if href = '''' then Inr None
              else (case urljoin base_url href of Inl e \<Rightarrow> Inl e | Inr l \<Rightarrow> Inr (Some l))))"

text \<open>
  The Selenium driver and the clock: \<open>'b\<close> is the state of the browser, \<open>'e\<close> a located
  element. A call that can raise returns the exception or its value, and, where the
  sources go on after the exception, the browser as the call left it. \<open>sleep d b\<close> is
  the browser \<open>d\<close> seconds later, for a \<open>d\<close> that is not negative.
  \<open>first_card_title_text\<close> and \<open>get_cards_on_page\<close> read \<open>driver.page_source\<close>,
  which can raise like every other call to the browser.
\<close>

record ('b, 'e) driver =
  get_url :: "string \<Rightarrow> 'b \<Rightarrow> py_error + 'b"
  wait_results_loaded :: "'b \<Rightarrow> py_error + 'b"
  sleep :: "real \<Rightarrow> 'b \<Rightarrow> py_error + 'b"
  first_card_title_text :: "'b \<Rightarrow> py_error + string"
  wait_page_item :: "int \<Rightarrow> 'b \<Rightarrow> (py_error + 'e) \<times> 'b"
  find_page_link :: "'e \<Rightarrow> 'b \<Rightarrow> (py_error + 'e) \<times> 'b"
  click :: "'e \<Rightarrow> 'b \<Rightarrow> (py_error + unit) \<times> 'b"
  wait_selected :: "'e \<Rightarrow> 'b \<Rightarrow> (py_error + unit) \<times> 'b"
  wait_title_changed :: "string \<Rightarrow> 'b \<Rightarrow> (py_error + unit) \<times> 'b"
  get_cards_on_page :: "'b \<Rightarrow> py_error + card list"
  urljoin :: "string \<Rightarrow> string \<Rightarrow> py_error + string"

definition time_sleep :: "('b, 'e) driver \<Rightarrow> real \<Rightarrow> 'b \<Rightarrow> py_error + 'b" where
  \<comment> \<open>\<open>time.sleep(d)\<close>: \<open>ValueError\<close> for a negative \<open>d\<close>; for another \<open>d\<close> it
      returns, or raises what the clock raises (\<open>OverflowError\<close> for a huge \<open>d\<close>)\<close>
  "time_sleep drv d b = (if d < 0 then Inl ValueError else sleep drv d b)"

definition click_and_wait ::
  "('b, 'e) driver \<Rightarrow> real \<Rightarrow> int \<Rightarrow> string \<Rightarrow> 'b \<Rightarrow> (py_error + string) \<times> 'b" where
  \<comment> \<open>the body of the \<open>try\<close>, lines 147 to 157: the first call that raises ends it;
      on success the value is the new \<open>last_first_title\<close>\<close>
  "click_and_wait drv delay i last_first_title b0 =
     (case wait_page_item drv i b0 of
        (Inl e, b1) \<Rightarrow> (Inl e, b1)
      | (Inr li, b1) \<Rightarrow>
     (case find_page_link drv li b1 of
        (Inl e, b2) \<Rightarrow> (Inl e, b2)
      | (Inr a, b2) \<Rightarrow>
     (case click drv a b2 of
        (Inl e, b3) \<Rightarrow> (Inl e, b3)
      | (Inr _, b3) \<Rightarrow>
     (case wait_selected drv li b3 of
        (Inl e, b4) \<Rightarrow> (Inl e, b4)
      | (Inr _, b4) \<Rightarrow>
     (case wait_title_changed drv last_first_title b4 of
        (Inl e, b5) \<Rightarrow> (Inl e, b5)
      | (Inr _, b5) \<Rightarrow>
     (case time_sleep drv delay b5 of
        Inl e \<Rightarrow> (Inl e, b5)
      | Inr b6 \<Rightarrow>
     (case first_card_title_text drv b6 of
        Inl e \<Rightarrow> (Inl e, b6)
      | Inr t \<Rightarrow> (Inr t, b6))))))))"

fun collect_cards ::
  "('b, 'e) driver \<Rightarrow> string \<Rightarrow> card list \<Rightarrow> string list \<times> nat \<Rightarrow> py_error + string list \<times> nat" where
  \<comment> \<open>the loop over \<open>cards\<close>, lines 164 to 171, on the link set and \<open>found_here\<close>;
      an exception of \<open>urljoin\<close> ends it\<close>
  "collect_cards drv start_url [] acc = Inr acc"
| "collect_cards drv start_url (c # cards) (links, found_here) =
     (if \<not> is_course_card c then collect_cards drv start_url cards (links, found_here)
      else (case extract_course_link_from_card (urljoin drv) c start_url of
              Inl e \<Rightarrow> Inl e
            | Inr None \<Rightarrow> collect_cards drv start_url cards (links, found_here)
            | Inr (Some link) \<Rightarrow>
                if link \<noteq> ''''
                then collect_cards drv start_url cards (py_set_add link links, found_here + 1)
                else collect_cards drv start_url cards (links, found_here)))"

record 'b walk =
  browser :: 'b
  links :: "string list"
  last_first_title :: string
  printed :: "(int \<times> nat \<times> nat) list"  \<comment> \<open>page, \<open>found_here\<close>, \<open>len(links)\<close> of each line printed\<close>

definition page_step ::
  "('b, 'e) driver \<Rightarrow> string \<Rightarrow> real \<Rightarrow> int \<Rightarrow> 'b walk \<Rightarrow> py_error + 'b walk" where
  \<comment> \<open>one pass of the loop over the pages, lines 146 to 174: what the \<open>try\<close> raises is
      dropped, what the lines after it raise ends the walk\<close>
  "page_step drv start_url delay i w =
     (let (res, b1) = click_and_wait drv delay i (last_first_title w) (browser w);
          lft = (case res of Inl e \<Rightarrow> last_first_title w | Inr t \<Rightarrow> t)
      in case get_cards_on_page drv b1 of
           Inl e \<Rightarrow> Inl e
         | Inr cards \<Rightarrow>
        (case collect_cards drv start_url cards (links w, 0) of
           Inl e \<Rightarrow> Inl e
         | Inr (links1, found_here) \<Rightarrow>
        (case time_sleep drv (2 / 10) b1 of
           Inl e \<Rightarrow> Inl e
         | Inr b2 \<Rightarrow>
             Inr \<lparr>browser = b2,
                  links = links1,
                  last_first_title = lft,
                  printed = printed w @ [(i, found_here, length links1)]\<rparr>)))"

fun walk_pages ::
  "('b, 'e) driver \<Rightarrow> string \<Rightarrow> real \<Rightarrow> int list \<Rightarrow> 'b walk \<Rightarrow> py_error + 'b walk" where
  \<comment> \<open>the loop over the pages: the first pass that raises ends it\<close>
  "walk_pages drv start_url delay [] w = Inr w"
| "walk_pages drv start_url delay (i # is) w =
     (case page_step drv start_url delay i w of
        Inl e \<Rightarrow> Inl e
      | Inr w' \<Rightarrow> walk_pages drv start_url delay is w')"

definition iterate_pages_and_collect_links ::
  "('b, 'e) driver \<Rightarrow> string \<Rightarrow> int \<Rightarrow> real \<Rightarrow> 'b \<Rightarrow> py_error + 'b walk" where
  "iterate_pages_and_collect_links drv start_url pages delay b0 =
     (case get_url drv start_url b0 of
        Inl e \<Rightarrow> Inl e
      | Inr b1 \<Rightarrow>
     (case wait_results_loaded drv b1 of
        Inl e \<Rightarrow> Inl e
      | Inr b2 \<Rightarrow>
     (case time_sleep drv delay b2 of
        Inl e \<Rightarrow> Inl e
      | Inr b3 \<Rightarrow>
     (case first_card_title_text drv b3 of
        Inl e \<Rightarrow> Inl e
      | Inr t \<Rightarrow>
          walk_pages drv start_url delay [1..pages]
            \<lparr>browser = b3, links = [], last_first_title = t, printed = []\<rparr>))))"

section \<open>crawler.py: detail pages\<close>









section \<open>Sample data\<close>

text \<open>Small concrete inputs on which the theorems below are exercised.\<close>

definition fit_no_vocabulary :: "string \<Rightarrow> string \<Rightarrow> unit fit_result" where
  \<comment> \<open>a vectorizer whose vocabulary comes out empty\<close>
  "fit_no_vocabulary a b = RaisesValueError"

definition fit_unit :: "string \<Rightarrow> string \<Rightarrow> unit fit_result" where
  "fit_unit a b = Fitted () ()"

definition csim_one :: "unit \<Rightarrow> unit \<Rightarrow> real" where
  "csim_one x y = 1"

definition blank_row :: "string \<Rightarrow> row" where
  "blank_row link =
     \<lparr>url = link, title = None, category = None, modality = None, duration = None,
      price = None, start_date = None, location = None, value_proposal = None,
      tutoria = None, description = None, raw_html = None, last_crawled_at = None\<rparr>"

definition row_python :: row where
  "row_python = (blank_row ''https://example.edu/python'')
     \<lparr>title := Some ''Curso de Python'', duration := Some ''40 horas'',
      last_crawled_at := Some ''2024-01-01T00:00:00Z''\<rparr>"

definition row_python_later :: row where
  "row_python_later = (blank_row ''https://example.edu/python'')
     \<lparr>title := Some ''Python para datos'', price := Some ''$ 100'',
      last_crawled_at := Some ''2024-02-01T00:00:00Z''\<rparr>"

definition row_datos :: row where
  "row_datos = (blank_row ''https://example.edu/datos'')\<lparr>title := Some ''Ciencia de datos''\<rparr>"

definition sample_db :: db where
  "sample_db =
     \<lparr>courses = [(1, row_datos)],
      terms = [(1, ''IA''), (2, ''Python'')],
      synonyms = [(1, Some ''Inteligencia Artificial''), (1, None), (2, Some '''')]\<rparr>"

definition row_abc :: row where
  "row_abc = (blank_row ''https://example.edu/abc'')\<lparr>title := Some ''abc''\<rparr>"

definition db_abc :: db where
  \<comment> \<open>a store with one course, titled \<open>abc\<close>\<close>
  "db_abc = \<lparr>courses = [(1, row_abc)], terms = [], synonyms = []\<rparr>"

definition term_arbol :: string where
  \<comment> \<open>the word \<open>ARBOL\<close> with an acute accent on its capital A (U+00C1)\<close>
  "term_arbol = [CHR 0xC1] @ ''RBOL''"

definition db_arbol :: db where
  \<comment> \<open>a term table with that one term, and one synonym for it\<close>
  "db_arbol = \<lparr>courses = [], terms = [(1, term_arbol)], synonyms = [(1, Some ''tree'')]\<rparr>"

definition insertion_order :: "string list \<Rightarrow> string list" where
  \<comment> \<open>a set iterated in insertion order\<close>
  "insertion_order xs = xs"

definition engine_bm25 :: "stmt \<Rightarrow> py_error + (string \<times> string) list" where
  \<comment> \<open>a full-text engine with ranking\<close>
  "engine_bm25 s =
     (case s of
        MatchRanked m n \<Rightarrow> Inr [(''https://example.edu/datos'', ''Ciencia de datos'')]
      | MatchUnranked m n \<Rightarrow> Inr [(''https://example.edu/datos'', ''Ciencia de datos'')]
      | _ \<Rightarrow> Inl OtherError)"

definition engine_no_bm25 :: "stmt \<Rightarrow> py_error + (string \<times> string) list" where
  \<comment> \<open>a full-text engine without \<open>bm25\<close>\<close>
  "engine_no_bm25 s =
     (case s of
        MatchRanked m n \<Rightarrow> Inl OperationalError
      | MatchUnranked m n \<Rightarrow> Inr [(''https://example.edu/datos'', ''Ciencia de datos'')]
      | _ \<Rightarrow> Inl OtherError)"

definition card_course :: "string \<Rightarrow> card" where
  "card_course h = \<lparr>card_type = Some ''Curso'', body_href = Some h, first_href = Some h\<rparr>"

definition card_other :: "string \<Rightarrow> card" where
  "card_other h = \<lparr>card_type = Some ''Diplomado'', body_href = None, first_href = Some h\<rparr>"

definition catalogue :: "nat \<Rightarrow> card list" where
  \<comment> \<open>a catalogue of three pages, two courses and one other programme on each\<close>
  "catalogue p =
     (if p = 1 then [card_course ''/a'', card_other ''/x'', card_course ''/b'']
      else if p = 2 then [card_course ''/c'', card_course ''/d'', card_other ''/y'']
      else [card_other ''/z'', card_course ''/e'', card_course ''/f''])"

definition urljoin_sample :: "string \<Rightarrow> string \<Rightarrow> py_error + string" where
  \<comment> \<open>\<open>urljoin\<close> on the links of the sample catalogue: a link that \<open>urlparse\<close>
      refuses raises, a path from the root is put behind the host\<close>
  "urljoin_sample base h =
     (case urlparse accept_host h of
        Inl e \<Rightarrow> Inl e
      | Inr p \<Rightarrow> Inr (''https://example.edu'' @ h))"


definition page_driver :: "(nat, int) driver" where
  \<comment> \<open>a browser that follows every click; the first page is already selected, so the
      wait for a changed first title times out there\<close>
  "page_driver =
     \<lparr>get_url = (\<lambda>u b. Inr 1),
      wait_results_loaded = (\<lambda>b. Inr b),
      sleep = (\<lambda>d b. Inr b),
      first_card_title_text =
        (\<lambda>b. Inr (if b = 1 then ''page 1'' else if b = 2 then ''page 2'' else ''page 3'')),
      wait_page_item = (\<lambda>i b. (Inr i, b)),
      find_page_link = (\<lambda>e b. (Inr e, b)),
      click = (\<lambda>e b. (Inr (), nat e)),
      wait_selected = (\<lambda>e b. (Inr (), b)),
      wait_title_changed =
        (\<lambda>t b. (if (if b = 1 then ''page 1'' else if b = 2 then ''page 2'' else ''page 3'') \<noteq> t
                 then Inr () else Inl TimeoutException, b)),
      get_cards_on_page = (\<lambda>b. Inr (catalogue b)),
      urljoin = urljoin_sample\<rparr>"





section \<open>The specification's reading of the query\<close>

text \<open>
  These follow the specification's words, to be compared with \<open>build_fts_query\<close>. The
  synonyms of a term are found by a case-insensitive exact match against the term table:
  they are the stored synonyms of every term row that equals the term once both are in
  lower case, each taken stripped and in lower case as the group holds them. Every
  non-blank term gives one group; a group is the parenthesised \<open>OR\<close> of its parts, each
  quoted when it contains a space.
\<close>

definition same_term :: "string \<Rightarrow> string \<Rightarrow> bool" where
  \<comment> \<open>equal up to case, both sides folded alike\<close>
  "same_term a b = (py_lower a = py_lower b)"

definition spec_synonyms :: "db \<Rightarrow> string \<Rightarrow> string set" where
  "spec_synonyms con t =
     set (map (\<lambda>(i, syn). py_lower (py_strip (the syn)))
              (filter (\<lambda>(i, syn). truthy syn
                         \<and> list_ex (\<lambda>(j, tm). j = i \<and> same_term tm (py_strip t)) (terms con))
                      (synonyms con)))"

definition nonblank :: "string list \<Rightarrow> string list" where
  "nonblank tms = filter (\<lambda>t. py_strip t \<noteq> '''') tms"

definition paren_group :: "string list \<Rightarrow> string" where
  "paren_group ps = ''('' @ join '' OR '' (map fts_quote ps) @ '')''"

section \<open>The pages of the catalogue\<close>


section \<open>Facts about the string functions\<close>

lemma ord_lower_char:
  "ord (lower_char c) =
     (if (65 \<le> ord c \<and> ord c \<le> 90) \<or> (192 \<le> ord c \<and> ord c \<le> 222 \<and> ord c \<noteq> 215)
      then ord c + 32 else ord c)"
  by (auto simp: lower_char_def ord_def of_char_of)

lemma ord_eq_iff: "a = b \<longleftrightarrow> ord a = ord b"
  by (auto simp add: ord_def)

lemma lower_char_idem: "lower_char (lower_char c) = lower_char c"
  unfolding ord_eq_iff [of "lower_char (lower_char c)"] by (auto simp: ord_lower_char)

lemma py_lower_idem: "py_lower (py_lower s) = py_lower s"
  by (simp add: py_lower_def lower_char_idem)

lemma lower_char_small:
  assumes "ord d < 65 \<or> (90 < ord d \<and> ord d < 97) \<or> (122 < ord d \<and> ord d < 192)"
  shows "lower_char c = d \<longleftrightarrow> c = d"
  using assms unfolding ord_eq_iff [of "lower_char c"] ord_eq_iff [of c] ord_lower_char
  by (auto split: if_splits)

lemma lower_char_letter:
  assumes "lower_char c = d" and "97 \<le> ord d" and "ord d \<le> 122"
  shows "ascii_alpha c"
  using assms unfolding ord_eq_iff [of "lower_char c"] ord_lower_char ascii_alpha_def
  by (auto split: if_splits)

lemma ascii_alpha_facts:
  assumes "ascii_alpha c"
  shows "\<not> ord c \<le> 32" "ord c \<noteq> 9" "ord c \<noteq> 13" "ord c \<noteq> 10" "c \<noteq> CHR '':''" "scheme_char c"
  using assms by (auto simp: ascii_alpha_def scheme_char_def ascii_alnum_def ord_def)

lemma take_Suc_eq_Cons:
  "take (Suc n) xs = y # ys \<longleftrightarrow> (\<exists>zs. xs = y # zs \<and> take n zs = ys)"
  by (cases xs) auto

lemma split_on_not_Nil: "split_on c s \<noteq> []"
  by (induction s) (auto split: list.splits)

lemma split_on_absent: "c \<notin> set s \<Longrightarrow> split_on c s = [s]"
  by (induction s) auto

lemma split_on_present: "c \<in> set s \<Longrightarrow> tl (split_on c s) \<noteq> []"
  by (induction s) (auto simp: split_on_not_Nil split: list.splits)

lemma last_split_on: "c \<notin> set ys \<Longrightarrow> last (split_on c (xs @ c # ys)) = ys"
proof (induction xs)
  case Nil
  then show ?case by (simp add: split_on_absent)
next
  case (Cons x xs)
  have "tl (split_on c (xs @ c # ys)) \<noteq> []" by (rule split_on_present) simp
  with Cons show ?case by (auto simp: split_on_not_Nil split: list.splits)
qed

lemma last_segment:
  "\<exists>t. last (split_on c (q @ s)) = t @ s" if "c \<notin> set s"
proof (cases "c \<in> set q")
  case False
  with that show ?thesis by (simp add: split_on_absent)
next
  case True
  then obtain q1 q2 where q: "q = q1 @ c # q2" and "c \<notin> set q2"
    by (metis split_list_last)
  with that have "last (split_on c (q1 @ c # (q2 @ s))) = q2 @ s"
    by (intro last_split_on) simp
  then show ?thesis by (auto simp: q)
qed

lemma last_filter_keep:
  "xs \<noteq> [] \<Longrightarrow> P (last xs) \<Longrightarrow> filter P xs \<noteq> [] \<and> last (filter P xs) = last xs"
  by (induction xs) (auto split: if_splits)

section \<open>The URL filter\<close>

lemma mailto_prefix:
  assumes "startswith (py_lower u) ''mailto:''"
  obtains a b c d e f rest where "u = a # b # c # d # e # f # CHR '':'' # rest"
    and "ascii_alpha a" "ascii_alpha b" "ascii_alpha c" "ascii_alpha d" "ascii_alpha e" "ascii_alpha f"
    and "py_lower [a, b, c, d, e, f] = ''mailto''"
proof -
  have "take (Suc (Suc (Suc (Suc (Suc (Suc (Suc 0))))))) (map lower_char u) = ''mailto:''"
    using assms by (simp add: startswith_def py_lower_def eval_nat_numeral)
  then obtain a b c d e f g rest where u: "u = a # b # c # d # e # f # g # rest"
    and l: "lower_char a = CHR ''m''" "lower_char b = CHR ''a''" "lower_char c = CHR ''i''"
      "lower_char d = CHR ''l''" "lower_char e = CHR ''t''" "lower_char f = CHR ''o''"
      "lower_char g = CHR '':''"
    unfolding take_Suc_eq_Cons by (auto simp: map_eq_Cons_conv)
  have g: "g = CHR '':''"
    using l(7) by (subst (asm) lower_char_small) (simp_all add: ord_def)
  have al: "ascii_alpha a" "ascii_alpha b" "ascii_alpha c" "ascii_alpha d" "ascii_alpha e" "ascii_alpha f"
    using l by (auto intro: lower_char_letter simp: ord_def)
  show thesis
    by (rule that [OF u [unfolded g] al]) (simp add: py_lower_def l)
qed

lemma split_scheme_mailto:
  assumes "startswith (py_lower u) ''mailto:''"
  shows "fst (split_scheme (remove_unsafe (lstrip_c0 u))) = ''mailto''"
proof -
  from assms obtain a b c d e f rest where u: "u = a # b # c # d # e # f # CHR '':'' # rest"
    and al: "ascii_alpha a" "ascii_alpha b" "ascii_alpha c" "ascii_alpha d" "ascii_alpha e" "ascii_alpha f"
    and lo: "py_lower [a, b, c, d, e, f] = ''mailto''"
    by (rule mailto_prefix)
  have r: "remove_unsafe (lstrip_c0 u) = a # b # c # d # e # f # CHR '':'' # remove_unsafe rest"
    using al by (simp add: u lstrip_c0_def remove_unsafe_def ascii_alpha_facts) (simp add: ord_def)
  have f: "py_find CHR '':'' 0 (a # b # c # d # e # f # CHR '':'' # remove_unsafe rest) = Some 6"
    using al by (simp add: py_find_def ascii_alpha_facts)
  have t: "take 6 (a # b # c # d # e # f # CHR '':'' # remove_unsafe rest) = [a, b, c, d, e, f]"
    by (simp add: eval_nat_numeral)
  show ?thesis
    unfolding r split_scheme_def f option.case t using al lo
    by (simp add: ascii_alpha_facts)
qed

lemma urlsplit_scheme:
  "urlsplit chk u = Inr r \<Longrightarrow> scheme r = fst (split_scheme (remove_unsafe (lstrip_c0 u)))"
  by (auto simp: urlsplit_def Let_def split: prod.splits if_splits)

lemma urlparse_scheme:
  "urlparse chk u = Inr r \<Longrightarrow> scheme r = fst (split_scheme (remove_unsafe (lstrip_c0 u)))"
  by (auto simp: urlparse_def Let_def urlsplit_scheme split: sum.splits prod.splits if_splits)

lemma absolute_not_mailto:
  assumes "is_absolute_url chk u = Inr True"
  shows "\<not> startswith (py_lower u) ''mailto:''"
proof
  assume m: "startswith (py_lower u) ''mailto:''"
  from assms obtain r where r: "urlparse chk u = Inr r" and s: "scheme r \<in> {''http'', ''https''}"
    by (auto simp: is_absolute_url_def split: if_splits sum.splits)
  from urlparse_scheme [OF r] split_scheme_mailto [OF m] have "scheme r = ''mailto''" by simp
  with s show False by simp
qed

lemma ext_match_html: "ext_match (t @ ''.html'') = Some ''html''"
  by (simp add: ext_match_def Let_def ascii_alnum_def ascii_alpha_def ascii_digit_def ord_def)

lemma endswith_html_extension:
  assumes "endswith p ''.html''"
  shows "filename_extension p = ''.html''"
proof -
  from assms obtain q where p: "p = q @ ''.html''"
    unfolding endswith_def by (metis append_take_drop_id)
  obtain t where t: "last (split_on CHR ''/'' p) = t @ ''.html''"
    unfolding p using last_segment [of "CHR ''/''" "''.html''" q] by auto
  have "filter (\<lambda>seg. seg \<noteq> '''') (split_on CHR ''/'' p) \<noteq> [] \<and>
        last (filter (\<lambda>seg. seg \<noteq> '''') (split_on CHR ''/'' p)) = t @ ''.html''"
    using last_filter_keep [of "split_on CHR ''/'' p" "\<lambda>seg. seg \<noteq> ''''"] t
    by (simp add: split_on_not_Nil)
  then show ?thesis
    by (simp add: filename_extension_def p Let_def ext_match_html py_lower_def lower_char_def ord_def)
qed

text \<open>
  Claim C1, as amended. The claim as written promises acceptance from the host and the
  path alone; the code first demands an absolute http/https URL and refuses every URL
  with an \<open>@\<close> in it. With those two guards passed: a URL whose network location,
  in lower case, is the lower-cased domain or ends in a dot and that domain, and whose
  path has no file extension, ends in \<open>/\<close> or ends in \<open>.html\<close>, is accepted.
\<close>

theorem is_url_ok_to_follow_accepts:
  assumes "is_absolute_url chk u = Inr True"
    and "CHR ''@'' \<notin> set u"
    and "urlparse chk u = Inr parsed"
    and "py_lower (netloc parsed) = py_lower domain
         \<or> endswith (py_lower (netloc parsed)) (''.'' @ py_lower domain)"
    and "filename_extension (path parsed) = '''' \<or> endswith (path parsed) ''/''
         \<or> endswith (path parsed) ''.html''"
  shows "is_url_ok_to_follow chk u domain = Inr True"
proof -
  have m: "\<not> startswith (py_lower u) ''mailto:''"
    using assms(1) by (rule absolute_not_mailto)
  have e: "filename_extension ''/'' = ''''"
    by (simp add: filename_extension_def)
  have "path parsed \<noteq> '''' \<Longrightarrow> \<not> endswith (path parsed) ''/'' \<Longrightarrow>
        filename_extension (path parsed) \<noteq> '''' \<Longrightarrow> filename_extension (path parsed) = ''.html''"
    using assms(5) endswith_html_extension by blast
  then show ?thesis
    using assms(1-4) m by (auto simp: is_url_ok_to_follow_def Let_def e)
qed

theorem is_url_ok_to_follow_accepts_witness:
  "is_absolute_url accept_host ''https://Cursos.Example.com/a/b.html'' = Inr True
   \<and> CHR ''@'' \<notin> set ''https://Cursos.Example.com/a/b.html''
   \<and> urlparse accept_host ''https://Cursos.Example.com/a/b.html''
       = Inr \<lparr>scheme = ''https'', netloc = ''Cursos.Example.com'', path = ''/a/b.html'',
              params = '''', query = '''', fragment = ''''\<rparr>
   \<and> is_url_ok_to_follow accept_host ''https://Cursos.Example.com/a/b.html'' ''example.COM'' = Inr True"
proof -
  let ?u = "''https://Cursos.Example.com/a/b.html''"
  let ?p = "\<lparr>scheme = ''https'', netloc = ''Cursos.Example.com'', path = ''/a/b.html'',
             params = '''', query = '''', fragment = ''''\<rparr>"
  have p: "urlparse accept_host ?u = Inr ?p" by code_simp
  have a: "is_absolute_url accept_host ?u = Inr True" by code_simp
  have n: "CHR ''@'' \<notin> set ?u" by simp
  have h: "py_lower (netloc ?p) = py_lower ''example.COM''
           \<or> endswith (py_lower (netloc ?p)) (''.'' @ py_lower ''example.COM'')" by code_simp
  have e: "filename_extension (path ?p) = '''' \<or> endswith (path ?p) ''/''
           \<or> endswith (path ?p) ''.html''" by code_simp
  show ?thesis
    using is_url_ok_to_follow_accepts [OF a n p h e] a n p by simp
qed

text \<open>
  Claim C1 as written fails: the host of \<open>http://example.com/a@b\<close> is exactly the
  domain and its path has no file extension, yet the URL is refused for its \<open>@\<close>; and
  \<open>ftp://example.com/\<close>, with the same host and a path that ends in \<open>/\<close>, is refused
  for its scheme.
\<close>

theorem is_url_ok_to_follow_at_sign_counterexample:
  "urlparse accept_host ''http://example.com/a@b''
     = Inr \<lparr>scheme = ''http'', netloc = ''example.com'', path = ''/a@b'',
            params = [], query = [], fragment = []\<rparr>
   \<and> filename_extension ''/a@b'' = []
   \<and> is_url_ok_to_follow accept_host ''http://example.com/a@b'' ''example.com'' = Inr False
   \<and> urlparse accept_host ''ftp://example.com/''
     = Inr \<lparr>scheme = ''ftp'', netloc = ''example.com'', path = ''/'',
            params = [], query = [], fragment = []\<rparr>
   \<and> is_url_ok_to_follow accept_host ''ftp://example.com/'' ''example.com'' = Inr False"
  by code_simp

text \<open>
  Where the URL parses, the filter refuses as described: an \<open>@\<close>, a \<open>mailto:\<close>
  prefix, a scheme other than http/https or an empty network location each give
  \<open>False\<close>, whatever the domain.
\<close>

lemma is_url_ok_to_follow_rejects:
  assumes "urlparse chk u = Inr parsed"
    and "CHR ''@'' \<in> set u \<or> startswith (py_lower u) ''mailto:''
         \<or> scheme parsed \<notin> {''http'', ''https''} \<or> netloc parsed = ''''"
  shows "is_url_ok_to_follow chk u domain = Inr False"
  using assms by (auto simp: is_url_ok_to_follow_def is_absolute_url_def Let_def split: bool.splits)

text \<open>
  Claim C2: a URL with an \<open>@\<close> is to give \<open>False\<close> for every domain. On
  \<open>http://user@[example.com/\<close> the function returns nothing: \<open>urlparse\<close> raises
  \<open>ValueError\<close> on the unmatched bracket, inside \<open>is_absolute_url\<close>, and nothing
  catches it (\<open>convert_if_relative_url\<close> wraps the same calls in \<open>try\<close>).
\<close>

theorem is_url_ok_to_follow_raises:
  "is_url_ok_to_follow chk ''http://user@[example.com/'' domain = Inl ValueError"
  by (simp add: is_url_ok_to_follow_def is_absolute_url_def urlparse_def urlsplit_def
      lstrip_c0_def remove_unsafe_def split_scheme_def py_find_def ord_def splitnetloc_def
      ascii_alpha_def scheme_char_def ascii_alnum_def ascii_digit_def py_lower_def lower_char_def)

section \<open>Normalising a URL\<close>

lemma py_find_0:
  "py_find c 0 s = (if c \<in> set s then Some (length (takeWhile (\<lambda>x. x \<noteq> c) s)) else None)"
  by (simp add: py_find_def)

lemma take_length_takeWhile: "take (length (takeWhile P xs)) xs = takeWhile P xs"
  by (induction xs) auto

lemma drop_length_takeWhile: "drop (length (takeWhile P xs)) xs = dropWhile P xs"
  by (induction xs) auto

lemma split_scheme_alt:
  "split_scheme s =
     (if scheme_valid s
      then (py_lower (takeWhile (\<lambda>x. x \<noteq> CHR '':'') s), drop 1 (dropWhile (\<lambda>x. x \<noteq> CHR '':'') s))
      else ('''', s))"
proof -
  have "drop (Suc (length (takeWhile (\<lambda>x. x \<noteq> CHR '':'') s))) s
        = drop 1 (dropWhile (\<lambda>x. x \<noteq> CHR '':'') s)"
    by (metis One_nat_def drop_drop drop_length_takeWhile plus_1_eq_Suc)
  then show ?thesis
    by (auto simp: split_scheme_def py_find_0 scheme_valid_def take_length_takeWhile)
qed

lemma length_takeWhile_delims:
  "length (takeWhile (\<lambda>x. \<not> delim_char x) r)
   = fold (\<lambda>c d. if c \<in> set r then min d (length (takeWhile (\<lambda>x. x \<noteq> c) r)) else d)
          ''/?#'' (length r)"
  by (induction r) (auto simp: delim_char_def min_def)

lemma splitnetloc_alt:
  "splitnetloc (a # b # r) 2
   = (takeWhile (\<lambda>x. \<not> delim_char x) r, dropWhile (\<lambda>x. \<not> delim_char x) r)"
proof -
  have d: "fold (\<lambda>c d. case py_find c 2 (a # b # r) of None \<Rightarrow> d | Some w \<Rightarrow> min d w)
             ''/?#'' (length (a # b # r))
           = 2 + length (takeWhile (\<lambda>x. \<not> delim_char x) r)"
    unfolding length_takeWhile_delims by (simp add: py_find_def min_def)
  show ?thesis
    unfolding splitnetloc_def d Let_def
    by (simp add: take_length_takeWhile drop_length_takeWhile)
qed

lemma netloc_step:
  "(if take 2 y = ''//'' then splitnetloc y 2 else ('''', y)) = after_scheme y"
proof (cases y)
  case Nil
  then show ?thesis by (simp add: after_scheme_def)
next
  case (Cons a y')
  show ?thesis
  proof (cases y')
    case Nil
    with Cons show ?thesis by (simp add: after_scheme_def)
  next
    case (Cons b r)
    with \<open>y = a # y'\<close> show ?thesis
      by (auto simp: after_scheme_def splitnetloc_alt)
  qed
qed

lemma split1_always: "(if c \<in> set s then split1 c s else (s, '''')) = split1 c s"
proof (cases "c \<in> set s")
  case True
  then show ?thesis by simp
next
  case False
  have a: "takeWhile (\<lambda>x. x \<noteq> c) s = s" using False by (induction s) auto
  have b: "dropWhile (\<lambda>x. x \<noteq> c) s = []" using False by (induction s) auto
  show ?thesis using False unfolding split1_def a b by simp
qed

lemma urlsplit_alt:
  "urlsplit chk u0 =
     (let x = remove_unsafe (lstrip_c0 u0);
          sy = split_scheme x;
          nz = after_scheme (snd sy);
          z1 = takeWhile (\<lambda>x. x \<noteq> CHR ''#'') (snd nz)
      in if \<not> brackets_ok chk (fst nz) then Inl ValueError
         else Inr \<lparr>scheme = fst sy, netloc = fst nz,
                   path = takeWhile (\<lambda>x. x \<noteq> CHR ''?'') z1, params = '''',
                   query = drop 1 (dropWhile (\<lambda>x. x \<noteq> CHR ''?'') z1),
                   fragment = drop 1 (dropWhile (\<lambda>x. x \<noteq> CHR ''#'') (snd nz))\<rparr>)"
  unfolding urlsplit_def netloc_step split1_always
  by (auto simp: Let_def case_prod_unfold brackets_ok_def split1_def)


lemma lower_char_unsafe: "unsafe_char (lower_char c) \<longleftrightarrow> unsafe_char c"
  unfolding unsafe_char_def ord_lower_char by auto

lemma lower_char_alpha: "ascii_alpha c \<Longrightarrow> ascii_alpha (lower_char c)"
  unfolding ascii_alpha_def ord_lower_char by auto

lemma lower_char_scheme: "scheme_char c \<Longrightarrow> scheme_char (lower_char c)"
proof -
  assume a: "scheme_char c"
  have d: "ascii_digit c \<Longrightarrow> lower_char c = c"
    unfolding ascii_digit_def ord_eq_iff [of "lower_char c"] ord_lower_char by auto
  have p: "c = CHR ''+'' \<or> c = CHR ''-'' \<or> c = CHR ''.'' \<Longrightarrow> lower_char c = c"
    by (auto simp: lower_char_def ord_def)
  from a d p lower_char_alpha [of c] show ?thesis
    unfolding scheme_char_def ascii_alnum_def by metis
qed

lemma scheme_valid_takeWhile:
  "scheme_valid (takeWhile P s) \<Longrightarrow> scheme_valid s"
proof -
  assume v: "scheme_valid (takeWhile P s)"
  let ?p = "takeWhile P s"
  have c: "CHR '':'' \<in> set ?p" using v by (simp add: scheme_valid_def)
  have s: "s = ?p @ dropWhile P s" by simp
  have t: "takeWhile (\<lambda>x. x \<noteq> CHR '':'') s = takeWhile (\<lambda>x. x \<noteq> CHR '':'') ?p"
    by (subst s, subst takeWhile_append1) (use c in auto)
  have "?p \<noteq> []" using c by auto
  then have h: "hd s = hd ?p" by (cases s) (auto split: if_splits)
  have "CHR '':'' \<in> set s" using c by (meson set_takeWhileD)
  with v show ?thesis unfolding scheme_valid_def t h by simp
qed

lemma takeWhile_append_stop:
  "b = [] \<or> \<not> P (hd b) \<Longrightarrow> list_all P a \<Longrightarrow> takeWhile P (a @ b) = a"
  by (cases b) (auto simp: list_all_iff)

lemma dropWhile_append_stop:
  "b = [] \<or> \<not> P (hd b) \<Longrightarrow> list_all P a \<Longrightarrow> dropWhile P (a @ b) = b"
  by (cases b) (auto simp: list_all_iff)

lemma scheme_valid_append:
  assumes "b = [] \<or> (hd b \<noteq> CHR '':'' \<and> \<not> scheme_char (hd b))"
  shows "scheme_valid (a @ b) \<longleftrightarrow> scheme_valid a"
proof (cases "CHR '':'' \<in> set a")
  case True
  then have t: "takeWhile (\<lambda>x. x \<noteq> CHR '':'') (a @ b) = takeWhile (\<lambda>x. x \<noteq> CHR '':'') a"
    by (subst takeWhile_append1) auto
  from True have "a \<noteq> []" by auto
  then have h: "hd (a @ b) = hd a" by simp
  show ?thesis unfolding scheme_valid_def t h using True by auto
next
  case False
  then have na: "\<not> scheme_valid a" by (simp add: scheme_valid_def)
  have "\<not> scheme_valid (a @ b)"
  proof (cases b)
    case Nil
    with na show ?thesis by simp
  next
    case (Cons c cs)
    with assms have c: "c \<noteq> CHR '':''" "\<not> scheme_char c" by auto
    have "takeWhile (\<lambda>x. x \<noteq> CHR '':'') (a @ b) = a @ c # takeWhile (\<lambda>x. x \<noteq> CHR '':'') cs"
      using False c(1) Cons by (subst takeWhile_append2) auto
    then show ?thesis using c(2) by (simp add: scheme_valid_def)
  qed
  with na show ?thesis by simp
qed

lemma after_scheme_facts:
  assumes "after_scheme y = (nl, z)"
  shows "set nl \<subseteq> set y" "set z \<subseteq> set y" "list_all (\<lambda>x. \<not> delim_char x) nl"
    and "nl \<noteq> [] \<Longrightarrow> z = [] \<or> delim_char (hd z)"
    and "\<not> scheme_valid y \<Longrightarrow> z = y \<or> z = [] \<or> delim_char (hd z)"
proof -
  consider (net) r where "y = CHR ''/'' # CHR ''/'' # r"
      "nl = takeWhile (\<lambda>x. \<not> delim_char x) r" "z = dropWhile (\<lambda>x. \<not> delim_char x) r"
    | (no) "nl = []" "z = y"
    using assms by (auto simp: after_scheme_def split: list.splits if_splits)
  then have "set nl \<subseteq> set y \<and> set z \<subseteq> set y \<and> list_all (\<lambda>x. \<not> delim_char x) nl
     \<and> (nl \<noteq> [] \<longrightarrow> z = [] \<or> delim_char (hd z)) \<and> (z = y \<or> z = [] \<or> delim_char (hd z))"
  proof cases
    case net
    have "z = [] \<or> delim_char (hd z)"
      unfolding net(3) using hd_dropWhile [of "\<lambda>x. \<not> delim_char x" r] by auto
    moreover have "set nl \<subseteq> set y" unfolding net using set_takeWhileD by fastforce
    moreover have "set z \<subseteq> set y" unfolding net using set_dropWhileD by fastforce
    moreover have "list_all (\<lambda>x. \<not> delim_char x) nl"
      unfolding net list_all_iff using set_takeWhileD by fastforce
    ultimately show ?thesis by blast
  next
    case no
    then show ?thesis by simp
  qed
  then show "set nl \<subseteq> set y" "set z \<subseteq> set y" "list_all (\<lambda>x. \<not> delim_char x) nl"
    "nl \<noteq> [] \<Longrightarrow> z = [] \<or> delim_char (hd z)"
    "\<not> scheme_valid y \<Longrightarrow> z = y \<or> z = [] \<or> delim_char (hd z)"
    by blast+
qed

lemma drop_Suc_takeWhile:
  "drop (Suc (length (takeWhile P xs))) xs = drop 1 (dropWhile P xs)"
  by (metis One_nat_def drop_drop drop_length_takeWhile plus_1_eq_Suc)

lemma takeWhile_stop: "c \<notin> set t \<Longrightarrow> takeWhile (\<lambda>x. x \<noteq> c) (t @ c # r) = t"
  by (induction t) auto

lemma dropWhile_stop: "c \<notin> set t \<Longrightarrow> dropWhile (\<lambda>x. x \<noteq> c) (t @ c # r) = c # r"
  by (induction t) auto

lemma takeWhile_rev_stop:
  "c \<notin> set t \<Longrightarrow> takeWhile (\<lambda>x. x \<noteq> c) (rev t @ c # r) = rev t"
  by (induction t rule: rev_induct) auto

lemma last_segment_rev:
  "c \<notin> set t \<Longrightarrow> takeWhile (\<lambda>x. x \<noteq> c) (rev (h @ c # t)) = rev t"
  by (simp add: takeWhile_rev_stop)

lemma py_rfind_last:
  "c \<notin> set t \<Longrightarrow> py_rfind c (h @ c # t) = Some (length h)"
  using last_segment_rev [of c t h] by (simp add: py_rfind_def)

lemma splitparams_slash:
  assumes "CHR ''/'' \<notin> set t"
  shows "splitparams (h @ CHR ''/'' # t)
         = (if CHR '';'' \<in> set t
            then (h @ CHR ''/'' # takeWhile (\<lambda>x. x \<noteq> CHR '';'') t,
                  drop 1 (dropWhile (\<lambda>x. x \<noteq> CHR '';'') t))
            else (h @ CHR ''/'' # t, []))"
proof -
  let ?w = "takeWhile (\<lambda>x. x \<noteq> CHR '';'') t"
  have r: "py_rfind CHR ''/'' (h @ CHR ''/'' # t) = Some (length h)"
    using assms by (rule py_rfind_last)
  have f: "py_find CHR '';'' (length h) (h @ CHR ''/'' # t)
           = (if CHR '';'' \<in> set t then Some (length h + Suc (length ?w)) else None)"
    by (simp add: py_find_def)
  have t: "take (length h + Suc (length ?w)) (h @ CHR ''/'' # t) = h @ CHR ''/'' # ?w"
    by (simp add: take_length_takeWhile)
  have d: "drop (length h + Suc (length ?w) + 1) (h @ CHR ''/'' # t)
           = drop 1 (dropWhile (\<lambda>x. x \<noteq> CHR '';'') t)"
    by (simp add: drop_Suc_takeWhile)
  show ?thesis
    using t d by (simp add: splitparams_def r f)
qed

lemma splitparams_noslash:
  assumes "CHR ''/'' \<notin> set s" and "CHR '';'' \<in> set s"
  shows "splitparams s
         = (takeWhile (\<lambda>x. x \<noteq> CHR '';'') s, drop 1 (dropWhile (\<lambda>x. x \<noteq> CHR '';'') s))"
proof -
  have "drop (Suc (length (takeWhile (\<lambda>x. x \<noteq> CHR '';'') s))) s
        = drop 1 (dropWhile (\<lambda>x. x \<noteq> CHR '';'') s)"
    by (metis One_nat_def drop_drop drop_length_takeWhile plus_1_eq_Suc)
  then show ?thesis
    using assms by (simp add: splitparams_def py_find_0 take_length_takeWhile)
qed

lemma split_at_char:
  "c \<in> set s \<Longrightarrow> s = takeWhile (\<lambda>x. x \<noteq> c) s @ c # drop 1 (dropWhile (\<lambda>x. x \<noteq> c) s)"
  by (induction s) auto

lemma splitparams_rejoin:
  assumes "CHR ''/'' \<notin> set a"
    and "CHR '';'' \<notin> set (takeWhile (\<lambda>x. x \<noteq> CHR ''/'') (rev p))"
    and "CHR '';'' \<in> set (if a \<noteq> [] then p @ '';'' @ a else p)"
  shows "splitparams (if a \<noteq> [] then p @ '';'' @ a else p) = (p, a)"
proof (cases "CHR ''/'' \<in> set p")
  case True
  then obtain h t where p: "p = h @ CHR ''/'' # t" and t: "CHR ''/'' \<notin> set t"
    by (metis split_list_last)
  have st: "CHR '';'' \<notin> set t"
    using assms(2) unfolding p last_segment_rev [OF t] by simp
  show ?thesis
  proof (cases "a = []")
    case True
    then show ?thesis using splitparams_slash [OF t, of h] st by (simp add: p)
  next
    case False
    have ta: "CHR ''/'' \<notin> set (t @ '';'' @ a)" using t assms(1) by simp
    have 1: "takeWhile (\<lambda>x. x \<noteq> CHR '';'') (t @ '';'' @ a) = t"
      using st by (simp add: takeWhile_stop)
    have 2: "dropWhile (\<lambda>x. x \<noteq> CHR '';'') (t @ '';'' @ a) = '';'' @ a"
      using st by (simp add: dropWhile_stop)
    show ?thesis
      using splitparams_slash [OF ta, of h] False st by (simp add: p takeWhile_stop dropWhile_stop)
  qed
next
  case False
  then have "takeWhile (\<lambda>x. x \<noteq> CHR ''/'') (rev p) = rev p"
    by (auto simp: takeWhile_eq_all_conv)
  with assms(2) have sp: "CHR '';'' \<notin> set p" by simp
  with assms(3) have a: "a \<noteq> []" by (auto split: if_splits)
  have ns: "CHR ''/'' \<notin> set (p @ '';'' @ a)" using False assms(1) by simp
  have 1: "takeWhile (\<lambda>x. x \<noteq> CHR '';'') (p @ '';'' @ a) = p"
    using sp by (simp add: takeWhile_stop)
  have 2: "dropWhile (\<lambda>x. x \<noteq> CHR '';'') (p @ '';'' @ a) = '';'' @ a"
    using sp by (simp add: dropWhile_stop)
  show ?thesis
    using splitparams_noslash [OF ns] a sp by (simp add: takeWhile_stop dropWhile_stop)
qed

lemma splitparams_shape:
  assumes "CHR '';'' \<in> set s" and "splitparams s = (p, a)"
  shows "CHR ''/'' \<notin> set a"
    and "CHR '';'' \<notin> set (takeWhile (\<lambda>x. x \<noteq> CHR ''/'') (rev p))"
    and "s = p @ '';'' @ a \<or> (s = p \<and> a = [])"
proof -
  have "CHR ''/'' \<notin> set a \<and> CHR '';'' \<notin> set (takeWhile (\<lambda>x. x \<noteq> CHR ''/'') (rev p))
        \<and> (s = p @ '';'' @ a \<or> (s = p \<and> a = []))"
  proof (cases "CHR ''/'' \<in> set s")
    case True
    then obtain h t where s: "s = h @ CHR ''/'' # t" and t: "CHR ''/'' \<notin> set t"
      by (metis split_list_last)
    show ?thesis
    proof (cases "CHR '';'' \<in> set t")
      case True
      let ?w = "takeWhile (\<lambda>x. x \<noteq> CHR '';'') t"
      from assms(2) True have pa: "p = h @ CHR ''/'' # ?w"
          "a = drop 1 (dropWhile (\<lambda>x. x \<noteq> CHR '';'') t)"
        unfolding s splitparams_slash [OF t] by simp_all
      have w: "CHR ''/'' \<notin> set ?w" "CHR '';'' \<notin> set ?w"
        using t by (auto dest: set_takeWhileD)
      have 1: "CHR ''/'' \<notin> set a"
        unfolding pa using t by (auto dest: in_set_dropD set_dropWhileD)
      have 2: "takeWhile (\<lambda>x. x \<noteq> CHR ''/'') (rev p) = rev ?w"
        unfolding pa by (rule last_segment_rev) (rule w)
      have 3: "t = ?w @ CHR '';'' # a"
        unfolding pa using True by (rule split_at_char)
      have "s = p @ '';'' @ a" unfolding s pa(1) by (subst 3) simp
      with 1 2 w show ?thesis by simp
    next
      case False
      from assms(2) False have pa: "p = s" "a = []"
        unfolding s splitparams_slash [OF t] by simp_all
      have "takeWhile (\<lambda>x. x \<noteq> CHR ''/'') (rev p) = rev t"
        unfolding pa s by (rule last_segment_rev) (rule t)
      with False pa show ?thesis by simp
    qed
  next
    case False
    from assms have pa: "p = takeWhile (\<lambda>x. x \<noteq> CHR '';'') s"
        "a = drop 1 (dropWhile (\<lambda>x. x \<noteq> CHR '';'') s)"
      unfolding splitparams_noslash [OF False assms(1)] by simp_all
    have 1: "CHR ''/'' \<notin> set a"
      unfolding pa using False by (auto dest: in_set_dropD set_dropWhileD)
    have 2: "CHR '';'' \<notin> set p" unfolding pa by (auto dest: set_takeWhileD)
    have 3: "s = p @ CHR '';'' # a" unfolding pa using assms(1) by (rule split_at_char)
    from 1 2 3 show ?thesis by (auto dest: set_takeWhileD)
  qed
  then show "CHR ''/'' \<notin> set a"
    "CHR '';'' \<notin> set (takeWhile (\<lambda>x. x \<noteq> CHR ''/'') (rev p))"
    "s = p @ '';'' @ a \<or> (s = p \<and> a = [])"
    by blast+
qed

lemma split_scheme_facts:
  assumes "split_scheme x = (sch, y)"
  shows "set y \<subseteq> set x"
    and "sch = [] \<or> (ascii_alpha (hd sch) \<and> list_all scheme_char sch \<and> py_lower sch = sch)"
    and "list_all (\<lambda>c. \<not> unsafe_char c) x \<Longrightarrow> list_all (\<lambda>c. \<not> unsafe_char c) sch"
    and "sch = [] \<Longrightarrow> \<not> scheme_valid x \<and> y = x"
proof -
  let ?pre = "takeWhile (\<lambda>c. c \<noteq> CHR '':'') x"
  show "set y \<subseteq> set x"
    using assms unfolding split_scheme_alt
    by (auto split: if_splits dest: in_set_dropD set_dropWhileD)
  show "sch = [] \<Longrightarrow> \<not> scheme_valid x \<and> y = x"
    using assms unfolding split_scheme_alt
    by (auto split: if_splits simp: scheme_valid_def py_lower_def)
  show "sch = [] \<or> (ascii_alpha (hd sch) \<and> list_all scheme_char sch \<and> py_lower sch = sch)"
  proof (cases "scheme_valid x")
    case False
    with assms show ?thesis by (simp add: split_scheme_alt)
  next
    case True
    with assms have s: "sch = py_lower ?pre" by (simp add: split_scheme_alt)
    from True have ne: "?pre \<noteq> []" and al: "ascii_alpha (hd x)" and sc: "list_all scheme_char ?pre"
      by (simp_all add: scheme_valid_def)
    from ne have "hd ?pre = hd x" by (cases x) (auto split: if_splits)
    with ne al have "ascii_alpha (hd sch)"
      unfolding s py_lower_def by (simp add: hd_map lower_char_alpha)
    moreover have "list_all scheme_char sch"
      using sc unfolding s py_lower_def by (simp add: list_all_iff lower_char_scheme)
    moreover have "py_lower sch = sch" unfolding s by (rule py_lower_idem)
    ultimately show ?thesis by simp
  qed
  show "list_all (\<lambda>c. \<not> unsafe_char c) sch" if "list_all (\<lambda>c. \<not> unsafe_char c) x"
  proof (cases "scheme_valid x")
    case False
    with assms show ?thesis by (simp add: split_scheme_alt)
  next
    case True
    with assms have s: "sch = py_lower ?pre" by (simp add: split_scheme_alt)
    have "list_all (\<lambda>c. \<not> unsafe_char c) ?pre"
      using that unfolding list_all_iff by (auto dest: set_takeWhileD)
    then show ?thesis
      unfolding s py_lower_def by (simp add: list_all_iff lower_char_unsafe)
  qed
qed

lemma dropWhile_absent: "c \<notin> set s \<Longrightarrow> dropWhile (\<lambda>x. x \<noteq> c) s = []"
  by (induction s) auto

lemma takeWhile_absent: "c \<notin> set s \<Longrightarrow> takeWhile (\<lambda>x. x \<noteq> c) s = s"
  by (induction s) auto

lemma hd_takeWhile_same: "takeWhile P s \<noteq> [] \<Longrightarrow> hd (takeWhile P s) = hd s"
  by (cases s) (auto split: if_splits)

lemma path_of_delim:
  assumes "z = [] \<or> delim_char (hd z)"
  shows "takeWhile (\<lambda>c. c \<noteq> CHR ''?'') (takeWhile (\<lambda>c. c \<noteq> CHR ''#'') z) = []
         \<or> hd (takeWhile (\<lambda>c. c \<noteq> CHR ''?'') (takeWhile (\<lambda>c. c \<noteq> CHR ''#'') z)) = CHR ''/''"
  using assms by (cases z) (auto simp: delim_char_def)

lemma not_valid_slash: "s = [] \<or> hd s = CHR ''/'' \<Longrightarrow> \<not> scheme_valid s"
  by (auto simp: scheme_valid_def ascii_alpha_def ord_def)

lemma urlsplit_shape:
  assumes "urlsplit chk u = Inr r"
  shows "list_all (\<lambda>c. \<not> unsafe_char c) (scheme r @ netloc r @ path r @ query r)"
    and "scheme r = [] \<or> (ascii_alpha (hd (scheme r)) \<and> list_all scheme_char (scheme r)
                          \<and> py_lower (scheme r) = scheme r)"
    and "list_all (\<lambda>c. \<not> delim_char c) (netloc r)"
    and "brackets_ok chk (netloc r)"
    and "CHR ''?'' \<notin> set (path r)" and "CHR ''#'' \<notin> set (path r)" and "CHR ''#'' \<notin> set (query r)"
    and "netloc r = [] \<or> path r = [] \<or> hd (path r) = CHR ''/''"
    and "scheme r \<noteq> [] \<or> \<not> scheme_valid (path r)"
    and "params r = []"
    and "scheme r \<noteq> [] \<or> path r = [] \<or> 32 < ord (hd (path r))"
    and "CHR ''#'' \<notin> set u \<Longrightarrow> fragment r = []"
proof -
  define x where "x = remove_unsafe (lstrip_c0 u)"
  obtain sch y where sy: "split_scheme x = (sch, y)" by (cases "split_scheme x")
  obtain nl z where nz: "after_scheme y = (nl, z)" by (cases "after_scheme y")
  define z1 where "z1 = takeWhile (\<lambda>c. c \<noteq> CHR ''#'') z"
  define pth where "pth = takeWhile (\<lambda>c. c \<noteq> CHR ''?'') z1"
  define qry where "qry = drop 1 (dropWhile (\<lambda>c. c \<noteq> CHR ''?'') z1)"
  from assms have b: "brackets_ok chk nl"
    and r: "r = \<lparr>scheme = sch, netloc = nl, path = pth, params = [], query = qry,
                 fragment = drop 1 (dropWhile (\<lambda>c. c \<noteq> CHR ''#'') z)\<rparr>"
    unfolding urlsplit_alt Let_def x_def [symmetric] sy nz fst_conv snd_conv
      z1_def [symmetric] pth_def [symmetric] qry_def [symmetric]
    by (auto split: if_splits)
  have ux: "list_all (\<lambda>c. \<not> unsafe_char c) x"
    unfolding x_def remove_unsafe_def list_all_iff unsafe_char_def by auto
  note sf = split_scheme_facts [OF sy]
  note af = after_scheme_facts [OF nz]
  have sub: "set pth \<subseteq> set z" "set qry \<subseteq> set z"
    unfolding pth_def qry_def z1_def
    by (auto dest: set_takeWhileD in_set_dropD set_dropWhileD)
  have "set z \<subseteq> set x" "set nl \<subseteq> set x" using sf(1) af(1,2) by auto
  with sub ux sf(3) show "list_all (\<lambda>c. \<not> unsafe_char c) (scheme r @ netloc r @ path r @ query r)"
    unfolding r list_all_iff by auto
  show "scheme r = [] \<or> (ascii_alpha (hd (scheme r)) \<and> list_all scheme_char (scheme r)
                          \<and> py_lower (scheme r) = scheme r)"
    using sf(2) by (simp add: r)
  show "list_all (\<lambda>c. \<not> delim_char c) (netloc r)" using af(3) by (simp add: r)
  show "brackets_ok chk (netloc r)" using b by (simp add: r)
  show "CHR ''?'' \<notin> set (path r)" unfolding r pth_def by (auto dest: set_takeWhileD)
  show "CHR ''#'' \<notin> set (path r)" unfolding r pth_def z1_def by (auto dest: set_takeWhileD)
  show "CHR ''#'' \<notin> set (query r)"
    unfolding r qry_def z1_def by (auto dest: set_takeWhileD in_set_dropD set_dropWhileD)
  show "netloc r = [] \<or> path r = [] \<or> hd (path r) = CHR ''/''"
    using af(4) path_of_delim [of z] by (auto simp: r pth_def z1_def)
  show "params r = []" by (simp add: r)
  have hx: "x = [] \<or> 32 < ord (hd x)"
  proof -
    let ?l = "lstrip_c0 u"
    have l: "?l = [] \<or> 32 < ord (hd ?l)"
    proof (cases "?l = []")
      case False
      then have "\<not> ord (hd ?l) \<le> 32"
        unfolding lstrip_c0_def by (rule hd_dropWhile)
      then show ?thesis by simp
    qed simp
    show ?thesis
    proof (cases ?l)
      case Nil
      then show ?thesis by (simp add: x_def remove_unsafe_def)
    next
      case (Cons a l')
      with l have "32 < ord a" by simp
      then show ?thesis unfolding x_def Cons remove_unsafe_def by auto
    qed
  qed
  have hz: "pth = [] \<or> 32 < ord (hd pth)" if "sch = []"
  proof -
    from sf(4) that have yx: "y = x" by simp
    have dl: "32 < ord c" if "delim_char c" for c
      using that by (auto simp: delim_char_def ord_def)
    from af(5) sf(4) \<open>sch = []\<close> yx have "z = x \<or> z = [] \<or> delim_char (hd z)" by auto
    with hx dl have "z = [] \<or> 32 < ord (hd z)" by auto
    moreover have "pth = [] \<or> hd pth = hd z"
      unfolding pth_def z1_def by (cases z) auto
    moreover have "z = [] \<Longrightarrow> pth = []" by (simp add: pth_def z1_def)
    ultimately show ?thesis by auto
  qed
  then show "scheme r \<noteq> [] \<or> path r = [] \<or> 32 < ord (hd (path r))" by (auto simp: r)
  show "fragment r = []" if "CHR ''#'' \<notin> set u"
  proof -
    have "set x \<subseteq> set u"
      unfolding x_def remove_unsafe_def lstrip_c0_def by (auto dest: set_dropWhileD)
    with \<open>set z \<subseteq> set x\<close> that have "CHR ''#'' \<notin> set z" by auto
    then show ?thesis by (simp add: r dropWhile_absent)
  qed
  show "scheme r \<noteq> [] \<or> \<not> scheme_valid (path r)"
  proof (cases "sch = []")
    case False
    then show ?thesis by (simp add: r)
  next
    case True
    with sf(4) have nv: "\<not> scheme_valid x" and yx: "y = x" by simp_all
    from af(5) nv yx consider "z = x" | "z = [] \<or> delim_char (hd z)" by auto
    then have "\<not> scheme_valid pth"
    proof cases
      case 1
      show ?thesis
      proof
        assume "scheme_valid pth"
        then have "scheme_valid z1" unfolding pth_def by (rule scheme_valid_takeWhile)
        then have "scheme_valid z" unfolding z1_def by (rule scheme_valid_takeWhile)
        with 1 nv show False by simp
      qed
    next
      case 2
      then have "pth = [] \<or> hd pth = CHR ''/''"
        unfolding pth_def z1_def by (rule path_of_delim)
      then show ?thesis by (rule not_valid_slash)
    qed
    then show ?thesis by (simp add: r)
  qed
qed

lemma semicolon_not_scheme: "CHR '';'' \<noteq> CHR '':'' \<and> \<not> scheme_char CHR '';''"
  by (simp add: scheme_char_def ascii_alnum_def ascii_alpha_def ascii_digit_def ord_def)

lemma urlparse_cases:
  assumes "urlparse chk u = Inr c"
  obtains (plain) r where "urlsplit chk u = Inr r" "c = r"
      "\<not> (scheme r \<in> set uses_params \<and> CHR '';'' \<in> set (path r))"
    | (split) r p a where "urlsplit chk u = Inr r" "c = r\<lparr>path := p, params := a\<rparr>"
      "scheme r \<in> set uses_params" "CHR '';'' \<in> set (path r)" "splitparams (path r) = (p, a)"
  using assms unfolding urlparse_def
  by (auto split: sum.splits if_splits prod.splits simp: Let_def)

lemma urlparse_wf:
  assumes "urlparse chk u = Inr c"
  shows "wf_parse chk c"
  using assms
proof (cases rule: urlparse_cases)
  case (plain r)
  note sh = urlsplit_shape [OF plain(1)]
  have "CHR '';'' \<notin> set (takeWhile (\<lambda>x. x \<noteq> CHR ''/'') (rev (path r)))"
    if "scheme r \<in> set uses_params"
    using that plain(3) by (auto dest: set_takeWhileD)
  with sh(1-10) sh(11) show ?thesis
    unfolding plain(2) wf_parse_def rejoin_def by simp
next
  case (split r p a)
  note sh = urlsplit_shape [OF split(1)]
  note sp = splitparams_shape [OF split(4,5)]
  from sp(3) have sub: "set p \<subseteq> set (path r)" "set a \<subseteq> set (path r)" by auto
  have rj: "rejoin c = (if a \<noteq> [] then path r else p)"
    using sp(3) by (auto simp: split(2) rejoin_def)
  have 1: "list_all (\<lambda>x. \<not> unsafe_char x) (scheme c @ netloc c @ path c @ params c @ query c)"
    using sh(1) sub unfolding split(2) list_all_iff by auto
  have 2: "CHR ''?'' \<notin> set (path c) \<and> CHR ''#'' \<notin> set (path c)
           \<and> CHR ''?'' \<notin> set (params c) \<and> CHR ''#'' \<notin> set (params c)"
    using sh(5,6) sub unfolding split(2) by auto
  have hp: "p = [] \<or> hd p = CHR ''/''" if "path r = [] \<or> hd (path r) = CHR ''/''"
    using that sp(3) by (cases p) auto
  have 3: "netloc c = [] \<or> rejoin c = [] \<or> hd (rejoin c) = CHR ''/''"
    using sh(8) hp unfolding rj by (auto simp: split(2))
  have vp: "\<not> scheme_valid p" if "\<not> scheme_valid (path r)" "a = []"
  proof -
    from sp(3) that(2) consider "path r = p @ '';''" | "path r = p" by auto
    then show ?thesis
    proof cases
      case 1
      have "scheme_valid (p @ '';'') \<longleftrightarrow> scheme_valid p"
        by (rule scheme_valid_append) (simp add: semicolon_not_scheme)
      with that(1) 1 show ?thesis by simp
    next
      case 2
      with that(1) show ?thesis by simp
    qed
  qed
  have 4: "scheme c \<noteq> [] \<or> \<not> scheme_valid (rejoin c)"
    using sh(9) vp unfolding rj by (auto simp: split(2))
  have hpp: "p = [] \<or> 32 < ord (hd p)" if "path r = [] \<or> 32 < ord (hd (path r))"
    using that sp(3) by (cases p) auto
  have 5: "scheme c \<noteq> [] \<or> rejoin c = [] \<or> 32 < ord (hd (rejoin c))"
    using sh(11) hpp unfolding rj by (auto simp: split(2))
  show ?thesis
    unfolding wf_parse_def
    using 1 2 3 4 5 sh(2,3,4,7) sp(1,2) split(3) by (simp add: split(2))
qed

lemma urlunparse_rejoin:
  "urlunparse rl c = urlunsplit rl (scheme c) (netloc c) (rejoin c) (query c) (fragment c)"
  by (simp add: urlunparse_def rejoin_def)

text \<open>
  With a network location, \<open>urlunparse\<close> does not consult the test that differs between
  the releases.
\<close>

lemma unparse_form:
  assumes "fragment c = []" and "netloc c \<noteq> []" and "rejoin c = [] \<or> hd (rejoin c) = CHR ''/''"
  shows "urlunparse rl c
         = (if scheme c \<noteq> [] then scheme c @ '':'' else [])
           @ ''//'' @ netloc c
           @ rejoin c
           @ (if query c \<noteq> [] then CHR ''?'' # query c else [])"
proof -
  have t: "take 1 s \<noteq> ''/'' \<longleftrightarrow> hd s \<noteq> CHR ''/''" if "s \<noteq> []" for s :: string
    using that by (cases s) auto
  show ?thesis
    using assms t [of "rejoin c"]
    unfolding urlunparse_rejoin
    by (auto simp: urlunsplit_def Let_def)
qed

lemma scheme_char_facts:
  assumes "scheme_char x"
  shows "x \<noteq> CHR '':''" "x \<noteq> CHR ''/''" "x \<noteq> CHR ''?''" "x \<noteq> CHR ''#''" "x \<noteq> CHR '';''"
  using assms
  by (auto simp: scheme_char_def ascii_alnum_def ascii_alpha_def ascii_digit_def ord_def)

lemma const_safe:
  "\<not> unsafe_char CHR '':''" "\<not> unsafe_char CHR ''/''" "\<not> unsafe_char CHR ''?''"
  "\<not> unsafe_char CHR '';''"
  by (simp_all add: unsafe_char_def ord_def)

lemma wf_parse_D:
  assumes "wf_parse chk c"
  shows "list_all (\<lambda>x. \<not> unsafe_char x) (scheme c)" "list_all (\<lambda>x. \<not> unsafe_char x) (netloc c)"
    "list_all (\<lambda>x. \<not> unsafe_char x) (rejoin c)" "list_all (\<lambda>x. \<not> unsafe_char x) (query c)"
    "scheme c = [] \<or> (ascii_alpha (hd (scheme c)) \<and> list_all scheme_char (scheme c)
                          \<and> py_lower (scheme c) = scheme c)"
    "list_all (\<lambda>x. \<not> delim_char x) (netloc c)" "brackets_ok chk (netloc c)"
    "CHR ''?'' \<notin> set (rejoin c)" "CHR ''#'' \<notin> set (rejoin c)" "CHR ''#'' \<notin> set (query c)"
    "netloc c = [] \<or> rejoin c = [] \<or> hd (rejoin c) = CHR ''/''"
    "scheme c \<noteq> [] \<or> \<not> scheme_valid (rejoin c)"
    "scheme c \<noteq> [] \<or> rejoin c = [] \<or> 32 < ord (hd (rejoin c))"
    "scheme c \<in> set uses_params \<Longrightarrow> CHR ''/'' \<notin> set (params c)"
    "scheme c \<in> set uses_params \<Longrightarrow> CHR '';'' \<notin> set (takeWhile (\<lambda>x. x \<noteq> CHR ''/'') (rev (path c)))"
    "scheme c \<notin> set uses_params \<Longrightarrow> params c = []"
  using assms unfolding wf_parse_def
  by (auto simp: rejoin_def const_safe split: if_splits)

lemma after_scheme_net:
  assumes "list_all (\<lambda>x. \<not> delim_char x) nl" and "t = [] \<or> delim_char (hd t)"
  shows "after_scheme (''//'' @ nl @ t) = (nl, t)"
proof -
  have 1: "takeWhile (\<lambda>x. \<not> delim_char x) (nl @ t) = nl"
    using assms by (intro takeWhile_append_stop) auto
  have 2: "dropWhile (\<lambda>x. \<not> delim_char x) (nl @ t) = t"
    using assms by (intro dropWhile_append_stop) auto
  show ?thesis by (simp add: after_scheme_def 1 2)
qed

text \<open>
  The round trip: the components of a parsed URL with a network location and no fragment,
  put together by \<open>urlunparse\<close>, parse to themselves.
\<close>

lemma reparse:
  assumes wf: "wf_parse chk c" and fr: "fragment c = []" and net: "netloc c \<noteq> []"
  shows "urlparse chk (urlunparse rl c) = Inr c"
proof -
  note w = wf_parse_D [OF wf]
  define sch where "sch = scheme c"
  define nl where "nl = netloc c"
  define q where "q = query c"
  define R where "R = rejoin c"
  define P1 where "P1 = (if sch \<noteq> [] then sch @ '':'' else [])"
  define P2 where "P2 = ''//'' @ nl"
  define Qs where "Qs = (if q \<noteq> [] then CHR ''?'' # q else [])"
  define S where "S = urlunparse rl c"
  have Rnet: "R = [] \<or> hd R = CHR ''/''"
    using w(11) net by (simp add: R_def)
  have S: "S = P1 @ P2 @ R @ Qs"
    unfolding S_def P1_def P2_def R_def Qs_def sch_def nl_def q_def
    using fr net Rnet [unfolded R_def] by (simp add: unparse_form)
  have Rq: "CHR ''?'' \<notin> set R" "CHR ''#'' \<notin> set R" "list_all (\<lambda>x. \<not> unsafe_char x) R"
    using w(3,8,9) by (auto simp: R_def)
  have Qh: "Qs = [] \<or> hd Qs = CHR ''?''" by (simp add: Qs_def)
  have RQ: "R @ Qs = [] \<or> delim_char (hd (R @ Qs))"
    using Rnet Qh by (cases R) (auto simp: delim_char_def)
  \<comment> \<open>nothing is stripped or removed\<close>
  have safe: "list_all (\<lambda>x. \<not> unsafe_char x) S"
    using w(1,2,4) Rq(3) unfolding S P1_def P2_def Qs_def sch_def nl_def q_def
    by (auto simp: const_safe)
  have 2: "remove_unsafe S = S"
    using safe unfolding remove_unsafe_def unsafe_char_def list_all_iff
    by (auto simp: filter_id_conv)
  have hdS: "S = [] \<or> 32 < ord (hd S)"
  proof (cases "sch = []")
    case False
    with w(5) have "ascii_alpha (hd sch)" by (simp add: sch_def)
    then have "32 < ord (hd sch)" by (auto simp: ascii_alpha_def)
    with False show ?thesis by (simp add: S P1_def)
  next
    case True
    then show ?thesis by (simp add: S P1_def P2_def ord_def)
  qed
  have 1: "lstrip_c0 S = S"
    using hdS unfolding lstrip_c0_def by (cases S) auto
  \<comment> \<open>the scheme\<close>
  have 3: "split_scheme S = (sch, P2 @ R @ Qs)"
  proof (cases "sch = []")
    case False
    with w(5) have al: "ascii_alpha (hd sch)" and sc: "list_all scheme_char sch"
      and lo: "py_lower sch = sch" by (simp_all add: sch_def)
    have nc: "CHR '':'' \<notin> set sch"
      using sc scheme_char_facts(1) unfolding list_all_iff by blast
    have Sf: "S = sch @ CHR '':'' # (P2 @ R @ Qs)" using False by (simp add: S P1_def)
    have tw: "takeWhile (\<lambda>x. x \<noteq> CHR '':'') S = sch"
      unfolding Sf using nc by (rule takeWhile_stop)
    have dw: "dropWhile (\<lambda>x. x \<noteq> CHR '':'') S = CHR '':'' # (P2 @ R @ Qs)"
      unfolding Sf using nc by (rule dropWhile_stop)
    have "hd S = hd sch" using False by (simp add: Sf)
    then have "scheme_valid S"
      unfolding scheme_valid_def tw using False al sc by (simp add: Sf)
    then show ?thesis
      unfolding split_scheme_alt tw dw using lo by simp
  next
    case True
    then have "hd S = CHR ''/''" by (simp add: S P1_def P2_def)
    then have "\<not> scheme_valid S" by (intro not_valid_slash) simp
    with True show ?thesis by (simp add: split_scheme_alt S P1_def)
  qed
  \<comment> \<open>the network location\<close>
  have 4: "after_scheme (P2 @ R @ Qs) = (nl, R @ Qs)"
  proof -
    have "after_scheme (''//'' @ nl @ (R @ Qs)) = (nl, R @ Qs)"
      using w(6) RQ unfolding nl_def by (rule after_scheme_net)
    then show ?thesis by (simp add: P2_def)
  qed
  \<comment> \<open>path, query and fragment\<close>
  have nh: "CHR ''#'' \<notin> set (R @ Qs)" using Rq(2) w(10) by (auto simp: Qs_def q_def)
  have 5: "takeWhile (\<lambda>x. x \<noteq> CHR ''#'') (R @ Qs) = R @ Qs"
    using nh by (rule takeWhile_absent)
  have 6: "dropWhile (\<lambda>x. x \<noteq> CHR ''#'') (R @ Qs) = []"
    using nh by (rule dropWhile_absent)
  have 7: "takeWhile (\<lambda>x. x \<noteq> CHR ''?'') (R @ Qs) = R"
    using Rq(1) by (cases "q = []") (simp_all add: Qs_def takeWhile_absent takeWhile_stop)
  have 8: "drop 1 (dropWhile (\<lambda>x. x \<noteq> CHR ''?'') (R @ Qs)) = q"
    using Rq(1) by (cases "q = []") (simp_all add: Qs_def dropWhile_absent dropWhile_stop)
  have split: "urlsplit chk S
               = Inr \<lparr>scheme = sch, netloc = nl, path = R, params = [], query = q, fragment = []\<rparr>"
    unfolding urlsplit_alt Let_def 1 2 3 snd_conv fst_conv 4 5 6 7 8
    using w(7) by (simp add: nl_def)
  \<comment> \<open>the parameters\<close>
  let ?r = "\<lparr>scheme = sch, netloc = nl, path = R, params = [], query = q, fragment = []\<rparr>"
  have c: "c = \<lparr>scheme = sch, netloc = nl, path = path c, params = params c,
                query = q, fragment = []\<rparr>"
    using fr by (simp add: sch_def nl_def q_def)
  show ?thesis
  proof (cases "sch \<in> set uses_params \<and> CHR '';'' \<in> set R")
    case True
    then have up: "scheme c \<in> set uses_params" by (simp add: sch_def)
    have Rj: "R = (if params c \<noteq> [] then path c @ '';'' @ params c else path c)"
      unfolding R_def rejoin_def ..
    have "splitparams R = (path c, params c)"
      unfolding Rj using w(14) [OF up] w(15) [OF up] True [unfolded Rj]
      by (intro splitparams_rejoin) simp_all
    with True have "urlparse chk S = Inr (?r\<lparr>path := path c, params := params c\<rparr>)"
      unfolding urlparse_def split by simp
    then show ?thesis unfolding S_def by (subst (2) c) simp
  next
    case False
    have pe: "params c = []"
    proof (cases "sch \<in> set uses_params")
      case False
      then show ?thesis using w(16) by (simp add: sch_def)
    next
      case True
      with False have "CHR '';'' \<notin> set R" by simp
      then show ?thesis unfolding R_def rejoin_def by (auto split: if_splits)
    qed
    then have "R = path c" unfolding R_def rejoin_def by simp
    with False pe have "urlparse chk S = Inr c"
      unfolding urlparse_def split by (subst c) auto
    then show ?thesis by (simp add: S_def)
  qed
qed

lemma py_lower_Nil_iff: "py_lower s = [] \<longleftrightarrow> s = []"
  by (simp add: py_lower_def)

lemma wf_parse_fragment: "wf_parse chk (c\<lparr>fragment := f\<rparr>) = wf_parse chk c"
  by (simp add: wf_parse_def rejoin_def)

lemma lower_char_delim: "delim_char (lower_char x) \<longleftrightarrow> delim_char x"
  unfolding delim_char_def
  by (simp add: lower_char_small [where d = "CHR ''/''"] lower_char_small [where d = "CHR ''?''"]
      lower_char_small [where d = "CHR ''#''"] ord_def)

lemma lower_char_bracket:
  "lower_char x = CHR ''['' \<longleftrightarrow> x = CHR ''[''" "lower_char x = CHR '']'' \<longleftrightarrow> x = CHR '']''"
  by (simp_all add: lower_char_small ord_def)

lemma mem_map_fixed:
  "(\<And>x. f x = c \<longleftrightarrow> x = c) \<Longrightarrow> c \<in> set (map f s) \<longleftrightarrow> c \<in> set s"
  by (induction s) (simp_all, metis)

lemma py_lower_mem_bracket:
  "CHR ''['' \<in> set (py_lower s) \<longleftrightarrow> CHR ''['' \<in> set s"
  "CHR '']'' \<in> set (py_lower s) \<longleftrightarrow> CHR '']'' \<in> set s"
  unfolding py_lower_def by (rule mem_map_fixed, rule lower_char_bracket)+

lemma brackets_ok_lower:
  assumes "\<forall>n. chk n \<longrightarrow> chk (py_lower n)" and "brackets_ok chk nl"
  shows "brackets_ok chk (py_lower nl)"
  using assms unfolding brackets_ok_def py_lower_mem_bracket by blast

lemma rejoin_canon: "rejoin (canon c) = rejoin c"
  by (simp add: canon_def rejoin_def)

lemma wf_canon:
  assumes "\<forall>n. chk n \<longrightarrow> chk (py_lower n)" and "wf_parse chk c"
  shows "wf_parse chk (canon c)"
proof -
  note w = assms(2) [unfolded wf_parse_def]
  have 1: "list_all (\<lambda>x. \<not> unsafe_char x) (py_lower (netloc c))"
    using w unfolding py_lower_def list_all_iff by (auto simp: lower_char_unsafe)
  have 2: "list_all (\<lambda>x. \<not> delim_char x) (py_lower (netloc c))"
    using w unfolding py_lower_def list_all_iff by (auto simp: lower_char_delim)
  have 3: "brackets_ok chk (py_lower (netloc c))"
    using assms(1) w by (intro brackets_ok_lower) simp_all
  show ?thesis
    unfolding wf_parse_def rejoin_canon
    using w 1 2 3 by (simp add: canon_def py_lower_Nil_iff)
qed

lemma canon_idem: "canon (canon c) = canon c"
  by (simp add: canon_def py_lower_idem)

lemma urlparse_fragment:
  assumes "CHR ''#'' \<notin> set u" and "urlparse chk u = Inr p"
  shows "fragment p = []"
  using assms(2)
proof (cases rule: urlparse_cases)
  case (plain r)
  with urlsplit_shape(12) [OF plain(1) assms(1)] show ?thesis by simp
next
  case (split r p' a)
  with urlsplit_shape(12) [OF split(1) assms(1)] show ?thesis by simp
qed

lemma urlparse_Nil:
  "urlparse chk [] = Inr \<lparr>scheme = [], netloc = [], path = [], params = [], query = [], fragment = []\<rparr>"
  by (simp add: urlparse_def urlsplit_alt lstrip_c0_def remove_unsafe_def split_scheme_alt
      scheme_valid_def after_scheme_def brackets_ok_def)

lemma canon_lower:
  assumes "wf_parse chk p" and "fragment p = []"
  shows "p\<lparr>scheme := py_lower (scheme p), netloc := py_lower (netloc p)\<rparr> = canon p"
proof -
  from assms(1) have "py_lower (scheme p) = scheme p"
    unfolding wf_parse_def by (auto simp: py_lower_def)
  with assms(2) show ?thesis by (simp add: canon_def)
qed

text \<open>
  What \<open>normalize_url\<close> returns for a URL with a network location: \<open>urlunparse\<close> of
  the components read from it, without the fragment and with the network location in
  lower case.
\<close>

lemma normalize_url_eq:
  assumes p: "urlparse chk u = Inr p" and net: "netloc p \<noteq> []"
  shows "normalize_url chk rl u = Inr (urlunparse rl (canon p))"
proof -
  have ne: "u \<noteq> []"
    using p net by (auto simp: urlparse_Nil)
  show ?thesis
  proof (cases "CHR ''#'' \<in> set u")
    case False
    then have rf: "remove_fragment chk rl u = Inr u"
      using ne by (simp add: remove_fragment_def urldefrag_def)
    have "p\<lparr>scheme := py_lower (scheme p), netloc := py_lower (netloc p)\<rparr> = canon p"
      using urlparse_wf [OF p] urlparse_fragment [OF False p] by (rule canon_lower)
    then show ?thesis using ne p by (simp add: normalize_url_def rf)
  next
    case True
    let ?c = "p\<lparr>fragment := []\<rparr>"
    have wf: "wf_parse chk ?c"
      using urlparse_wf [OF p] by (simp add: wf_parse_fragment)
    have rf: "remove_fragment chk rl u = Inr (urlunparse rl ?c)"
      using ne True p by (simp add: remove_fragment_def urldefrag_def)
    have rp: "urlparse chk (urlunparse rl ?c) = Inr ?c"
      using wf by (rule reparse) (simp_all add: net)
    have "?c\<lparr>scheme := py_lower (scheme ?c), netloc := py_lower (netloc ?c)\<rparr> = canon ?c"
      using wf by (rule canon_lower) simp
    moreover have "canon ?c = canon p" by (simp add: canon_def)
    ultimately show ?thesis
      using ne by (simp add: normalize_url_def rf rp)
  qed
qed

lemma unparse_canon_text:
  assumes "wf_parse chk p" and "netloc p \<noteq> []"
  shows "urlunparse rl (canon p) = canon_text p"
proof -
  note w = wf_parse_D [OF assms(1)]
  have r: "rejoin (canon p) = [] \<or> hd (rejoin (canon p)) = CHR ''/''"
    using w(11) assms(2) by (simp add: rejoin_canon)
  have "urlunparse rl (canon p)
        = (if scheme (canon p) \<noteq> [] then scheme (canon p) @ '':'' else [])
           @ ''//'' @ netloc (canon p) @ rejoin (canon p)
           @ (if query (canon p) \<noteq> [] then CHR ''?'' # query (canon p) else [])"
    using r assms(2) by (intro unparse_form) (simp_all add: canon_def py_lower_Nil_iff)
  then show ?thesis
    by (simp add: canon_text_def rejoin_canon) (simp add: canon_def rejoin_def)
qed

lemma unparse_no_hash:
  assumes "wf_parse chk c" and "fragment c = []" and "netloc c \<noteq> []"
  shows "CHR ''#'' \<notin> set (urlunparse rl c)"
proof -
  note w = wf_parse_D [OF assms(1)]
  have s: "CHR ''#'' \<notin> set (scheme c)"
    using w(5) scheme_char_facts(4) unfolding list_all_iff by auto
  have n: "CHR ''#'' \<notin> set (netloc c)"
    using w(6) unfolding list_all_iff delim_char_def by auto
  have r: "rejoin c = [] \<or> hd (rejoin c) = CHR ''/''"
    using w(11) assms(3) by simp
  show ?thesis
    unfolding unparse_form [OF assms(2,3) r] using s n w(9,10) by auto
qed

text \<open>
  Claim C3, as amended, for the URLs that \<open>urlparse\<close> reads with a network location
  (the text between \<open>//\<close> and the path), whatever the release of the library does
  without one. For such a \<open>u\<close>, \<open>normalize_url\<close> returns a \<open>v\<close> with these
  properties: \<open>v\<close> is the text put together from the components of \<open>u\<close>, namely the
  scheme (which \<open>urlparse\<close> gives in lower case), the network location in lower case,
  and path, parameters and query as parsed, without the fragment; \<open>normalize_url\<close>
  returns \<open>v\<close> for \<open>v\<close> again; \<open>v\<close> has no \<open>#\<close>; \<open>v\<close> parses back to exactly those
  components; and every URL whose components agree with those of \<open>u\<close> up to the
  fragment and the case of the network location gives the same \<open>v\<close>. The validation of
  a bracketed network location is taken not to depend on case.
\<close>

theorem normalize_url_canonical:
  assumes "\<forall>n. chk n \<longrightarrow> chk (py_lower n)"
    and "urlparse chk u = Inr p"
    and "netloc p \<noteq> ''''"
  shows "\<exists>v. normalize_url chk rl u = Inr v
           \<and> v = canon_text p
           \<and> normalize_url chk rl v = Inr v
           \<and> CHR ''#'' \<notin> set v
           \<and> urlparse chk v = Inr (canon p)
           \<and> (\<forall>u' p'. urlparse chk u' = Inr p' \<and> canon p' = canon p
                 \<longrightarrow> normalize_url chk rl u' = Inr v)"
proof -
  define v where "v = urlunparse rl (canon p)"
  have wf: "wf_parse chk (canon p)"
    using assms(1) urlparse_wf [OF assms(2)] by (rule wf_canon)
  have fr: "fragment (canon p) = []" by (simp add: canon_def)
  have net: "netloc (canon p) \<noteq> []"
    using assms(3) by (simp add: canon_def py_lower_Nil_iff)
  have 0: "normalize_url chk rl u = Inr v"
    unfolding v_def using assms(2,3) by (rule normalize_url_eq)
  have t: "v = canon_text p"
    unfolding v_def using urlparse_wf [OF assms(2)] assms(3) by (rule unparse_canon_text)
  have rp: "urlparse chk v = Inr (canon p)"
    unfolding v_def using wf fr net by (rule reparse)
  have 1: "normalize_url chk rl v = Inr v"
    using normalize_url_eq [OF rp net, of rl] by (simp add: canon_idem v_def)
  have 2: "CHR ''#'' \<notin> set v"
    unfolding v_def using wf fr net by (rule unparse_no_hash)
  have 4: "normalize_url chk rl u' = Inr v" if "urlparse chk u' = Inr p'" "canon p' = canon p" for u' p'
  proof -
    from that(2) have "netloc (canon p') = netloc (canon p)" by simp
    then have "py_lower (netloc p') = py_lower (netloc p)" by (simp add: canon_def)
    with assms(3) have "netloc p' \<noteq> []" by (metis py_lower_Nil_iff)
    from normalize_url_eq [OF that(1) this, of rl] that(2) show ?thesis by (simp add: v_def)
  qed
  from 0 t 1 2 rp 4 show ?thesis by blast
qed

theorem normalize_url_canonical_witness:
  "urlparse accept_host ''HTTP://Example.COM/a/b;p?q=1#frag''
     = Inr \<lparr>scheme = ''http'', netloc = ''Example.COM'', path = ''/a/b'', params = ''p'',
            query = ''q=1'', fragment = ''frag''\<rparr>
   \<and> normalize_url accept_host slashes_3_12 ''HTTP://Example.COM/a/b;p?q=1#frag''
       = Inr ''http://example.com/a/b;p?q=1''
   \<and> normalize_url accept_host slashes_3_12 ''http://example.com/a/b;p?q=1''
       = Inr ''http://example.com/a/b;p?q=1''
   \<and> CHR ''#'' \<notin> set ''http://example.com/a/b;p?q=1''
   \<and> urlparse accept_host ''http://EXAMPLE.com/a/b;p?q=1#other''
       = Inr \<lparr>scheme = ''http'', netloc = ''EXAMPLE.com'', path = ''/a/b'', params = ''p'',
              query = ''q=1'', fragment = ''other''\<rparr>
   \<and> normalize_url accept_host slashes_3_12 ''http://EXAMPLE.com/a/b;p?q=1#other''
       = Inr ''http://example.com/a/b;p?q=1''"
proof -
  let ?u = "''HTTP://Example.COM/a/b;p?q=1#frag''"
  let ?v = "''http://example.com/a/b;p?q=1''"
  let ?u' = "''http://EXAMPLE.com/a/b;p?q=1#other''"
  let ?p = "\<lparr>scheme = ''http'', netloc = ''Example.COM'', path = ''/a/b'', params = ''p'',
             query = ''q=1'', fragment = ''frag''\<rparr>"
  let ?p' = "\<lparr>scheme = ''http'', netloc = ''EXAMPLE.com'', path = ''/a/b'', params = ''p'',
              query = ''q=1'', fragment = ''other''\<rparr>"
  have h: "\<forall>n. accept_host n \<longrightarrow> accept_host (py_lower n)"
    by (simp add: accept_host_def)
  have p: "urlparse accept_host ?u = Inr ?p" by code_simp
  have n: "netloc ?p \<noteq> ''''" by simp
  have t: "canon_text ?p = ?v" by code_simp
  have p': "urlparse accept_host ?u' = Inr ?p'" by code_simp
  have c: "canon ?p' = canon ?p" by code_simp
  from normalize_url_canonical [OF h p n, of slashes_3_12] p' c t
  have "normalize_url accept_host slashes_3_12 ?u = Inr ?v"
    "normalize_url accept_host slashes_3_12 ?v = Inr ?v"
    "normalize_url accept_host slashes_3_12 ?u' = Inr ?v"
    by auto
  with p p' show ?thesis by simp
qed

text \<open>
  Claim C3 as written fails in two ways. Neither of the first two URLs has a fragment or
  a capital letter, and yet the text changes, a \<open>?\<close> with no query and a \<open>;\<close> with no
  parameters being dropped, with the library of either release. And with the
  \<open>urlunsplit\<close> of CPython 3.12.3 \<open>normalize_url\<close> is not idempotent on a URL without
  network location: \<open>////\<close> gives \<open>//\<close>, which gives the empty string.
\<close>

theorem normalize_url_not_verbatim_counterexample:
  "normalize_url accept_host slashes_3_11 ''http://example.com/p?'' = Inr ''http://example.com/p''
   \<and> normalize_url accept_host slashes_3_12 ''http://example.com/p?'' = Inr ''http://example.com/p''
   \<and> normalize_url accept_host slashes_3_11 ''http://example.com/a;?x=1'' = Inr ''http://example.com/a?x=1''
   \<and> normalize_url accept_host slashes_3_12 ''http://example.com/a;?x=1'' = Inr ''http://example.com/a?x=1''
   \<and> normalize_url accept_host slashes_3_12 ''////'' = Inr ''//''
   \<and> normalize_url accept_host slashes_3_12 ''//'' = Inr ''''"
  by code_simp

section \<open>Similarity scoring\<close>

lemma py_strip_Nil: "py_strip '''' = ''''"
  by (simp add: py_strip_def)

text \<open>
  Claim C4: \<open>compare_texts\<close> always returns, with a value between 0 and 1; the value is
  0 when both inputs are empty, when exactly one is, and when the vectorizer raises
  \<open>ValueError\<close>.
\<close>

theorem compare_texts_range_and_zero:
  "(\<exists>x. compare_texts fit csim a b = Inr x \<and> 0 \<le> x \<and> x \<le> 1)
   \<and> (a = '''' \<and> b = '''' \<longrightarrow> compare_texts fit csim a b = Inr 0)
   \<and> ((a = '''') \<noteq> (b = '''') \<longrightarrow> compare_texts fit csim a b = Inr 0)
   \<and> (fit (py_strip a) (py_strip b) = RaisesValueError \<longrightarrow> compare_texts fit csim a b = Inr 0)"
  by (auto simp: compare_texts_def tfidf_cosine_def Let_def py_strip_Nil split: fit_result.splits)

theorem compare_texts_range_and_zero_witness:
  "compare_texts fit_unit csim_one '''' '''' = Inr 0
   \<and> compare_texts fit_unit csim_one ''a'' '''' = Inr 0
   \<and> fit_no_vocabulary (py_strip ''de la'') (py_strip ''el que'') = RaisesValueError
   \<and> compare_texts fit_no_vocabulary csim_one ''de la'' ''el que'' = Inr 0
   \<and> (\<exists>x. compare_texts fit_unit csim_one ''curso de python'' ''curso de datos'' = Inr x
           \<and> 0 \<le> x \<and> x \<le> 1)"
  using compare_texts_range_and_zero [of fit_unit csim_one "''''" "''''"]
    compare_texts_range_and_zero [of fit_unit csim_one "''a''" "''''"]
    compare_texts_range_and_zero [of fit_no_vocabulary csim_one "''de la''" "''el que''"]
    compare_texts_range_and_zero [of fit_unit csim_one "''curso de python''" "''curso de datos''"]
  by (simp add: fit_no_vocabulary_def)

text \<open>Inputs of white space alone count as empty, since both are stripped first.\<close>

lemma compare_texts_blank:
  "py_strip a = '''' \<or> py_strip b = '''' \<Longrightarrow> compare_texts fit csim a b = Inr 0"
  by (auto simp: compare_texts_def tfidf_cosine_def Let_def)

section \<open>Upsert by url\<close>

lemma filter_unique:
  assumes "distinct (map f xs)" and "x \<in> set xs"
  shows "filter (\<lambda>y. f y = f x) xs = [x]"
  using assms
proof (induction xs)
  case Nil
  then show ?case by simp
next
  case (Cons a xs)
  show ?case
  proof (cases "a = x")
    case True
    have "filter (\<lambda>y. f y = f x) xs = []"
      using Cons.prems(1) True by (auto simp: filter_empty_conv image_iff)
    with True show ?thesis by simp
  next
    case False
    with Cons have "f a \<noteq> f x" by auto
    with Cons False show ?thesis by auto
  qed
qed

lemma upsert_course_one_row:
  assumes "unique_urls con"
  shows "unique_urls (upsert_course con rw)
         \<and> (\<exists>i. filter (\<lambda>(i, r). url r = url rw) (courses (upsert_course con rw)) = [(i, rw)])"
proof (cases "url rw \<in> set (map (\<lambda>(i, r). url r) (courses con))")
  case True
  let ?f = "\<lambda>(i, r). if url r = url rw then (i, rw) else (i, r)"
  let ?k = "\<lambda>(i::int, r). url r"
  have c: "courses (upsert_course con rw) = map ?f (courses con)"
    using True by (simp add: upsert_course_def)
  have k: "map ?k (map ?f (courses con)) = map ?k (courses con)"
    by (auto simp: o_def split: prod.splits)
  have u: "unique_urls (upsert_course con rw)"
    using assms unfolding unique_urls_def c k .
  from True obtain i r where ir: "(i, r) \<in> set (courses con)" and "url r = url rw" by auto
  then have m: "(i, rw) \<in> set (map ?f (courses con))" by force
  have d: "distinct (map ?k (map ?f (courses con)))"
    using assms unfolding unique_urls_def k .
  have "filter (\<lambda>y. ?k y = ?k (i, rw)) (map ?f (courses con)) = [(i, rw)]"
    using d m by (rule filter_unique)
  then have "filter (\<lambda>(i, r). url r = url rw) (courses (upsert_course con rw)) = [(i, rw)]"
    unfolding c by (simp add: case_prod_unfold)
  with u show ?thesis by blast
next
  case False
  then have c: "courses (upsert_course con rw) = courses con @ [(next_course_id (courses con), rw)]"
    by (simp add: upsert_course_def)
  have "filter (\<lambda>(i, r). url r = url rw) (courses con) = []"
    using False by (force simp: filter_empty_conv image_iff)
  then have "filter (\<lambda>(i, r). url r = url rw) (courses (upsert_course con rw))
             = [(next_course_id (courses con), rw)]"
    unfolding c by simp
  moreover have "unique_urls (upsert_course con rw)"
    using assms False unfolding unique_urls_def c by auto
  ultimately show ?thesis by blast
qed

text \<open>
  Claim C7: in a store with unique urls, two upserts of rows with the same url leave
  exactly one row for that url, and it is the later row, field for field.
\<close>

theorem upsert_course_twice:
  assumes "unique_urls con" and "url r1 = url r2"
  shows "\<exists>i. filter (\<lambda>(i, r). url r = url r2)
                (courses (upsert_course (upsert_course con r1) r2)) = [(i, r2)]"
  using upsert_course_one_row [of "upsert_course con r1" r2] upsert_course_one_row [OF assms(1), of r1]
  by blast

theorem upsert_course_twice_witness:
  "unique_urls sample_db \<and> url row_python = url row_python_later
   \<and> row_python \<noteq> row_python_later
   \<and> (\<exists>i. filter (\<lambda>(i, r). url r = url row_python_later)
             (courses (upsert_course (upsert_course sample_db row_python) row_python_later))
           = [(i, row_python_later)])"
proof -
  have u: "unique_urls sample_db"
    by (simp add: unique_urls_def sample_db_def)
  have e: "url row_python = url row_python_later"
    by (simp add: row_python_def row_python_later_def blank_row_def)
  have n: "row_python \<noteq> row_python_later"
    by (simp add: row_python_def row_python_later_def blank_row_def)
  show ?thesis
    using upsert_course_twice [OF u e] u e n by simp
qed

section \<open>Comparing stored courses\<close>

lemma sql_like_skip: "sql_like ps t \<Longrightarrow> sql_like (CHR ''%'' # ps) t"
  by (cases t) auto

lemma sql_like_percent_prefix: "sql_like (CHR ''%'' # ps) t \<Longrightarrow> sql_like (CHR ''%'' # ps) (x @ t)"
  by (induction x) auto

lemma sql_like_percent: "sql_like ''%'' t"
  by (induction t) auto

lemma sql_like_same: "sql_like ps t \<Longrightarrow> sql_like (s @ ps) (s @ t)"
proof (induction s)
  case Nil
  then show ?case by simp
next
  case (Cons c s)
  then show ?case by (auto intro: sql_like_skip)
qed

text \<open>
  A title that contains the string is matched by the matcher; the converse fails, since
  \<open>%\<close> and \<open>_\<close> in the string are wildcards and ASCII case is ignored.
\<close>

lemma sql_like_contains: "sql_like (''%'' @ s @ ''%'') (x @ s @ y)"
proof -
  have "sql_like (s @ ''%'') (s @ y)"
    by (rule sql_like_same) (rule sql_like_percent)
  then have "sql_like (CHR ''%'' # s @ ''%'') (s @ y)"
    by (rule sql_like_skip)
  then have "sql_like (CHR ''%'' # s @ ''%'') (x @ s @ y)"
    by (rule sql_like_percent_prefix)
  then show ?thesis by simp
qed

lemma utf8_length_replicate:
  "utf8_length (replicate n c) = n * (if ord c < 128 then 1 else 2)"
  by (induction n) (simp_all add: utf8_length_def)

lemma utf8_length_append: "utf8_length (a @ b) = utf8_length a + utf8_length b"
  by (simp add: utf8_length_def)

lemma utf8_length_Cons:
  "utf8_length (c # s) = (if ord c < 128 then 1 else 2) + utf8_length s" "utf8_length [] = 0"
  by (simp_all add: utf8_length_def)

lemma select_id_by_url_None:
  "(\<forall>(i, r) \<in> set (courses con). url r \<noteq> x) \<Longrightarrow> select_id_by_url con x = None"
proof -
  assume "\<forall>(i, r) \<in> set (courses con). url r \<noteq> x"
  then have "filter (\<lambda>(i, r). url r = x) (courses con) = []"
    by (auto simp: filter_empty_conv)
  then show ?thesis by (simp add: select_id_by_url_def)
qed

lemma select_id_by_title_None:
  assumes "courses con = [] \<or> \<not> like_too_complex pat"
    and "\<forall>(i, r) \<in> set (courses con). \<not> title_like pat r"
  shows "select_id_by_title con pat = Inr None"
proof -
  from assms(2) have "filter (\<lambda>(i, r). title_like pat r) (courses con) = []"
    by (auto simp: filter_empty_conv)
  with assms(1) show ?thesis by (auto simp: select_id_by_title_def)
qed

lemma select_id_by_title_returns:
  "courses con = [] \<or> \<not> like_too_complex pat \<Longrightarrow> \<exists>r. select_id_by_title con pat = Inr r"
  by (auto simp: select_id_by_title_def)

text \<open>
  Claim C10, as amended. \<open>compare_course_urls\<close> returns 0.0 when one of the two urls is
  the url of no stored course. \<open>compare_course_titles_contains\<close> returns 0.0 when, for
  one of the two strings \<open>s\<close>, no stored title is matched by \<open>LIKE\<close> on the pattern
  \<open>%s%\<close> (which ignores ASCII case and reads \<open>%\<close> and \<open>_\<close> in \<open>s\<close> as wildcards),
  provided both patterns are within the length limit of \<open>LIKE\<close> or the table is empty;
  with a stored course and a pattern over the limit the call raises \<open>OperationalError\<close>.
\<close>

theorem compare_no_match_zero:
  "((\<forall>(i, r) \<in> set (courses con). url r \<noteq> url_a) \<or> (\<forall>(i, r) \<in> set (courses con). url r \<noteq> url_b)
      \<longrightarrow> compare_course_urls fit csim con url_a url_b = Inr 0)
   \<and> ((courses con = []
        \<or> (\<not> like_too_complex (contains_pattern a) \<and> \<not> like_too_complex (contains_pattern b)))
       \<and> ((\<forall>(i, r) \<in> set (courses con). \<not> title_like (contains_pattern a) r)
            \<or> (\<forall>(i, r) \<in> set (courses con). \<not> title_like (contains_pattern b) r))
      \<longrightarrow> compare_course_titles_contains fit csim con a b = Inr 0)
   \<and> (courses con \<noteq> []
       \<and> (like_too_complex (contains_pattern a) \<or> like_too_complex (contains_pattern b))
      \<longrightarrow> compare_course_titles_contains fit csim con a b = Inl OperationalError)"
proof -
  have 1: "compare_course_urls fit csim con url_a url_b = Inr 0"
    if "(\<forall>(i, r) \<in> set (courses con). url r \<noteq> url_a) \<or> (\<forall>(i, r) \<in> set (courses con). url r \<noteq> url_b)"
    using that
    by (auto simp: compare_course_urls_def Let_def dest!: select_id_by_url_None split: option.splits)
  have 2: "compare_course_titles_contains fit csim con a b = Inr 0"
    if ok: "courses con = []
            \<or> (\<not> like_too_complex (contains_pattern a) \<and> \<not> like_too_complex (contains_pattern b))"
      and no: "(\<forall>(i, r) \<in> set (courses con). \<not> title_like (contains_pattern a) r)
               \<or> (\<forall>(i, r) \<in> set (courses con). \<not> title_like (contains_pattern b) r)"
  proof -
    from ok obtain ra rb where ra: "select_id_by_title con (contains_pattern a) = Inr ra"
      and rb: "select_id_by_title con (contains_pattern b) = Inr rb"
      using select_id_by_title_returns [of con "contains_pattern a"]
        select_id_by_title_returns [of con "contains_pattern b"] by auto
    from no ok ra rb have "ra = None \<or> rb = None"
      using select_id_by_title_None [of con "contains_pattern a"]
        select_id_by_title_None [of con "contains_pattern b"] by auto
    then show ?thesis
      by (auto simp: compare_course_titles_contains_def ra rb split: option.splits)
  qed
  have 3: "compare_course_titles_contains fit csim con a b = Inl OperationalError"
    if "courses con \<noteq> []"
      and "like_too_complex (contains_pattern a) \<or> like_too_complex (contains_pattern b)"
    using that
    by (auto simp: compare_course_titles_contains_def select_id_by_title_def split: sum.splits)
  from 1 2 3 show ?thesis by blast
qed

theorem compare_no_match_zero_witness:
  "select_id_by_url sample_db ''https://example.edu/none'' = None
   \<and> compare_course_urls fit_unit csim_one sample_db
        ''https://example.edu/none'' ''https://example.edu/datos'' = Inr 0
   \<and> select_id_by_title sample_db (contains_pattern ''python'') = Inr None
   \<and> select_id_by_title sample_db (contains_pattern ''DATOS'') = Inr (Some 1)
   \<and> compare_course_titles_contains fit_unit csim_one sample_db ''DATOS'' ''python'' = Inr 0
   \<and> like_too_complex (contains_pattern (replicate 49999 CHR ''a''))
   \<and> compare_course_titles_contains fit_unit csim_one sample_db
        (replicate 49999 CHR ''a'') ''DATOS'' = Inl OperationalError"
proof -
  let ?long = "replicate 49999 CHR ''a''"
  have a: "\<forall>(i, r) \<in> set (courses sample_db). url r \<noteq> ''https://example.edu/none''"
    by (simp add: sample_db_def row_datos_def blank_row_def)
  have b: "\<forall>(i, r) \<in> set (courses sample_db). \<not> title_like (contains_pattern ''python'') r"
    by (simp add: sample_db_def row_datos_def blank_row_def title_like_def contains_pattern_def
        c_string_def sql_lower_char_def ord_def)
  have l: "utf8_length (contains_pattern ''python'') = 8" "utf8_length (contains_pattern ''DATOS'') = 7"
    by (simp_all add: utf8_length_def contains_pattern_def ord_def)
  have k: "\<not> like_too_complex (contains_pattern ''python'')"
      "\<not> like_too_complex (contains_pattern ''DATOS'')"
    by (simp_all add: like_too_complex_def like_pattern_limit_def l)
  have c: "select_id_by_url sample_db ''https://example.edu/none'' = None"
    by (simp add: select_id_by_url_def sample_db_def row_datos_def blank_row_def)
  have f: "filter (\<lambda>(i, r). title_like (contains_pattern ''python'') r) (courses sample_db) = []"
    using b by (auto simp: filter_empty_conv)
  have d: "select_id_by_title sample_db (contains_pattern ''python'') = Inr None"
    using k(1) f by (simp add: select_id_by_title_def)
  have t: "title_like (contains_pattern ''DATOS'') row_datos"
    by code_simp
  have e: "select_id_by_title sample_db (contains_pattern ''DATOS'') = Inr (Some 1)"
    using k(2) t by (simp add: select_id_by_title_def sample_db_def)
  have g: "like_too_complex (contains_pattern ?long)"
    by (simp add: like_too_complex_def like_pattern_limit_def contains_pattern_def
        utf8_length_Cons utf8_length_append utf8_length_replicate ord_def)
  have n: "courses sample_db \<noteq> []" by (simp add: sample_db_def)
  show ?thesis
    using compare_no_match_zero [of sample_db "''https://example.edu/none''"
        "''https://example.edu/datos''" fit_unit csim_one "''DATOS''" "''python''"]
      compare_no_match_zero [of sample_db "''https://example.edu/none''"
        "''https://example.edu/datos''" fit_unit csim_one ?long "''DATOS''"]
      a b c d e g k n
    by blast
qed

text \<open>
  Claim C10 as written fails for the title selector: no stored title contains \<open>%\<close> or
  \<open>A_C\<close>, and yet both select the course titled \<open>abc\<close>, which is then compared with
  itself.
\<close>

theorem compare_titles_wildcard_counterexample:
  "courses db_abc = [(1, row_abc)] \<and> title row_abc = Some ''abc''
   \<and> \<not> contains ''abc'' ''%'' \<and> \<not> contains ''abc'' ''A_C''
   \<and> compare_course_titles_contains fit_unit csim_one db_abc ''%'' ''A_C'' = Inr 1"
proof -
  have 1: "\<not> contains ''abc'' ''%''" "\<not> contains ''abc'' ''A_C''"
    by code_simp+
  have l: "utf8_length (contains_pattern ''%'') = 3" "utf8_length (contains_pattern ''A_C'') = 5"
    by (simp_all add: utf8_length_def contains_pattern_def ord_def)
  have k: "\<not> like_too_complex (contains_pattern ''%'')" "\<not> like_too_complex (contains_pattern ''A_C'')"
    by (simp_all add: like_too_complex_def like_pattern_limit_def l)
  have t: "title_like (contains_pattern ''%'') row_abc" "title_like (contains_pattern ''A_C'') row_abc"
    by code_simp+
  have s: "select_id_by_title db_abc (contains_pattern ''%'') = Inr (Some 1)"
      "select_id_by_title db_abc (contains_pattern ''A_C'') = Inr (Some 1)"
    using k t by (simp_all add: select_id_by_title_def db_abc_def)
  have g: "get_text db_abc 1 = ''abc''"
    by (simp add: get_text_def db_abc_def row_abc_def blank_row_def truthy_def)
  have p: "py_strip ''abc'' = ''abc''" by code_simp
  have "compare_course_ids fit_unit csim_one db_abc 1 1 = Inr 1"
    by (simp add: compare_course_ids_def compare_texts_def tfidf_cosine_def g p Let_def
        fit_unit_def csim_one_def)
  with s 1 show ?thesis
    by (simp add: compare_course_titles_contains_def db_abc_def row_abc_def blank_row_def)
qed

text \<open>A genuine comparison can give the same 0.0: the two outcomes cannot be told apart.\<close>

lemma compare_texts_genuine_zero:
  "py_strip a \<noteq> '''' \<Longrightarrow> py_strip b \<noteq> '''' \<Longrightarrow> fit (py_strip a) (py_strip b) = Fitted x y
   \<Longrightarrow> csim x y = 0 \<Longrightarrow> compare_texts fit csim a b = Inr 0"
  by (simp add: compare_texts_def tfidf_cosine_def Let_def)

section \<open>Building the full-text query\<close>

lemma dropWhile_id: "xs = [] \<or> \<not> P (hd xs) \<Longrightarrow> dropWhile P xs = xs"
  by (cases xs) auto

lemma dropWhile_hd: "dropWhile P xs = [] \<or> \<not> P (hd (dropWhile P xs))"
  by (induction xs) auto

lemma py_strip_idem: "py_strip (py_strip s) = py_strip s"
proof -
  define a where "a = dropWhile py_isspace s"
  define c where "c = dropWhile py_isspace (rev a)"
  have s: "py_strip s = rev c" by (simp add: py_strip_def a_def c_def)
  have c: "c = [] \<or> \<not> py_isspace (hd c)" unfolding c_def by (rule dropWhile_hd)
  have a: "a = [] \<or> \<not> py_isspace (hd a)" unfolding a_def by (rule dropWhile_hd)
  have "rev c = [] \<or> \<not> py_isspace (hd (rev c))"
  proof (cases "c = []")
    case True then show ?thesis by simp
  next
    case False
    obtain p where p: "rev a = p @ c"
      unfolding c_def by (metis takeWhile_dropWhile_id)
    then have "a = rev c @ rev p" by (metis rev_append rev_rev_ident)
    with False have "hd (rev c) = hd a" by simp
    moreover have "a \<noteq> []" using p False by auto
    ultimately show ?thesis using a by simp
  qed
  then have 1: "dropWhile py_isspace (rev c) = rev c" by (rule dropWhile_id)
  have 2: "dropWhile py_isspace c = c" using c by (rule dropWhile_id)
  show ?thesis unfolding s by (simp add: py_strip_def 1 2)
qed

lemma set_fold_py_set_add: "set (fold py_set_add xs ys) = set xs \<union> set ys"
  by (induction xs arbitrary: ys) (auto simp: py_set_add_def)

lemma distinct_fold_py_set_add: "distinct ys \<Longrightarrow> distinct (fold py_set_add xs ys)"
  by (induction xs arbitrary: ys) (auto simp: py_set_add_def)

lemma set_fold_synonyms:
  "set (fold (\<lambda>(i, syn) acc. if truthy syn then py_set_add (g syn) acc else acc) rows acc0)
   = set acc0 \<union> set (map (\<lambda>(i, syn). g syn) (filter (\<lambda>(i, syn). truthy syn) rows))"
  by (induction rows arbitrary: acc0) (auto simp: py_set_add_def split: if_splits)

lemma get_synonyms_set: "set (fst (get_synonyms con t)) = found_synonyms con t"
proof (cases "filter (\<lambda>(i, tm). sql_lower tm = py_lower (py_strip t)) (terms con)")
  case Nil
  then show ?thesis by (simp add: get_synonyms_def found_synonyms_def Let_def)
next
  case (Cons x xs)
  obtain term_id tm where x: "x = (term_id, tm)" by (cases x)
  have f: "filter (\<lambda>(i, syn). truthy syn) (filter (\<lambda>(i, syn). i = term_id) (synonyms con))
           = filter (\<lambda>(i, syn). i = term_id \<and> truthy syn) (synonyms con)"
    by (auto simp: case_prod_unfold conj_commute)
  show ?thesis
    using Cons unfolding x
    by (simp add: get_synonyms_def found_synonyms_def Let_def
        set_fold_synonyms [where g = "\<lambda>syn. py_lower (py_strip (the syn))"])
      (auto simp: case_prod_unfold)
qed

lemma build_fold:
  "fold (\<lambda>t0 (groups, tr).
          let t = py_strip t0
          in if t = '''' then (groups, tr)
             else (let (syns, q) = get_synonyms con t
                   in (groups @ [fts_group iter t syns], tr @ q)))
        tms (groups0, tr0)
   = (groups0 @ map (\<lambda>t. fts_group iter (py_strip t) (fst (get_synonyms con (py_strip t)))) (nonblank tms),
      tr0 @ concat (map (\<lambda>t. snd (get_synonyms con (py_strip t))) (nonblank tms)))"
  by (induction tms arbitrary: groups0 tr0) (auto simp: nonblank_def Let_def case_prod_unfold)

lemma join_Nil_iff: "join sep xs = [] \<longleftrightarrow> (xs = [] \<or> (\<forall>x \<in> set xs. x = []) \<and> (sep = [] \<or> length xs = 1))"
  by (induction sep xs rule: join.induct) auto

lemma build_fts_query_eq:
  "build_fts_query iter tms con
   = (join '' OR '' (map (\<lambda>t. fts_group iter (py_strip t) (fst (get_synonyms con (py_strip t)))) (nonblank tms)),
      concat (map (\<lambda>t. snd (get_synonyms con (py_strip t))) (nonblank tms)))"
  unfolding build_fts_query_def build_fold by simp

lemma fts_group_eq:
  "fts_group iter t syns = paren_group (iter (fold py_set_add (map py_lower syns) [py_lower t]))"
  by (simp add: fts_group_def paren_group_def Let_def)

lemma found_synonyms_lower: "py_lower ` found_synonyms con t = found_synonyms con t"
  by (auto simp: found_synonyms_def py_lower_idem image_iff split: list.splits) 

text \<open>
  What \<open>build_fts_query\<close> builds, for any order in which the set of parts is read: the
  \<open>OR\<close> of one parenthesised group per non-blank term, in the order of the terms; the
  parts of a term's group are, without repetition, the stripped lower-cased term and the
  synonyms that the lookup of \<open>get_synonyms\<close> finds; a list of blank terms gives the
  empty expression, and no statement is run.
\<close>

lemma build_fts_query_structure:
  assumes "\<forall>xs. distinct xs \<longrightarrow> distinct (iter xs) \<and> set (iter xs) = set xs"
  shows "(\<exists>pss. fst (build_fts_query iter tms con) = join '' OR '' (map paren_group pss)
           \<and> list_all2 (\<lambda>ps t. distinct ps
                \<and> set ps = insert (py_lower (py_strip t)) (found_synonyms con t))
               pss (nonblank tms))
         \<and> ((\<forall>t \<in> set tms. py_strip t = '''') \<longrightarrow> build_fts_query iter tms con = ('''', []))"
proof -
  let ?parts = "\<lambda>t. fold py_set_add (map py_lower (fst (get_synonyms con (py_strip t)))) [py_lower (py_strip t)]"
  let ?pss = "map (\<lambda>t. iter (?parts t)) (nonblank tms)"
  have 1: "fst (build_fts_query iter tms con) = join '' OR '' (map paren_group ?pss)"
    by (simp add: build_fts_query_eq fts_group_eq o_def)
  have d: "distinct (?parts t)" for t
    by (rule distinct_fold_py_set_add) simp
  have s: "set (?parts t) = insert (py_lower (py_strip t)) (found_synonyms con t)" for t
  proof -
    have "found_synonyms con (py_strip t) = found_synonyms con t"
      by (simp add: found_synonyms_def py_strip_idem)
    then show ?thesis
      using found_synonyms_lower [of con t]
      by (simp add: set_fold_py_set_add get_synonyms_set)
  qed
  have 2: "list_all2 (\<lambda>ps t. distinct ps
              \<and> set ps = insert (py_lower (py_strip t)) (found_synonyms con t)) ?pss (nonblank tms)"
    using assms d s by (simp add: list_all2_map1 list_all2_same)
  have 3: "build_fts_query iter tms con = ('''', [])" if "\<forall>t \<in> set tms. py_strip t = ''''"
  proof -
    from that have "nonblank tms = []" by (auto simp: nonblank_def filter_empty_conv)
    then show ?thesis by (simp add: build_fts_query_eq)
  qed
  from 1 2 3 show ?thesis by blast
qed

text \<open>
  Claim C5 fails where the lookup does: the term table holds the term \<open>ARBOL\<close> written
  with an accented capital, with the synonym \<open>tree\<close>, and the query is that very
  word. The specification's case-insensitive match finds the row, so \<open>tree\<close> is a
  synonym of the term; \<open>get_synonyms\<close> compares SQLite's \<open>lower(term)\<close>, which folds
  ASCII letters only, with Python's \<open>lower()\<close> of the query, which folds the accented
  capital too, finds no row, and the group holds the term alone.
\<close>

theorem build_fts_query_misses_synonym:
  "terms db_arbol = [(1, term_arbol)] \<and> synonyms db_arbol = [(1, Some ''tree'')]
   \<and> same_term term_arbol term_arbol
   \<and> spec_synonyms db_arbol term_arbol = {''tree''}
   \<and> sql_lower term_arbol = [CHR 0xC1] @ ''rbol''
   \<and> py_lower (py_strip term_arbol) = [CHR 0xE1] @ ''rbol''
   \<and> get_synonyms db_arbol term_arbol = ([], [SelectTerm ([CHR 0xE1] @ ''rbol'')])
   \<and> build_fts_query insertion_order [term_arbol] db_arbol
       = (''('' @ [CHR 0xE1] @ ''rbol)'', [SelectTerm ([CHR 0xE1] @ ''rbol'')])"
proof -
  have 1: "terms db_arbol = [(1, term_arbol)]" "synonyms db_arbol = [(1, Some ''tree'')]"
    by (simp_all add: db_arbol_def)
  have 2: "same_term term_arbol term_arbol" by (simp add: same_term_def)
  have 3: "spec_synonyms db_arbol term_arbol = {''tree''}" by code_simp
  have 4: "sql_lower term_arbol = [CHR 0xC1] @ ''rbol''" by code_simp
  have 5: "py_lower (py_strip term_arbol) = [CHR 0xE1] @ ''rbol''" by code_simp
  have 6: "get_synonyms db_arbol term_arbol = ([], [SelectTerm ([CHR 0xE1] @ ''rbol'')])"
    by code_simp
  have 7: "build_fts_query insertion_order [term_arbol] db_arbol
           = (''('' @ [CHR 0xE1] @ ''rbol)'', [SelectTerm ([CHR 0xE1] @ ''rbol'')])"
    by code_simp
  from 1 2 3 4 5 6 7 show ?thesis by simp
qed

text \<open>
  The lookup finds every term that is stored without a capital letter outside ASCII: for
  such a row SQLite's and Python's lower case agree.
\<close>

lemma sql_lower_ascii:
  "list_all (\<lambda>c. \<not> (192 \<le> ord c \<and> ord c \<le> 222 \<and> ord c \<noteq> 215)) tm \<Longrightarrow> sql_lower tm = py_lower tm"
  by (induction tm) (auto simp: sql_lower_def py_lower_def sql_lower_char_def lower_char_def)

lemma two_orders:
  assumes "distinct ys" and "set ys = {a, b}" and "a \<noteq> b"
  shows "ys = [a, b] \<or> ys = [b, a]"
proof -
  have "length ys = 2"
    using assms by (metis card_2_iff distinct_card)
  then obtain x y where "ys = [x, y]"
    by (auto simp: length_Suc_conv eval_nat_numeral)
  with assms show ?thesis by auto
qed

lemma get_synonyms_ia:
  "get_synonyms sample_db ''ia'' = ([''inteligencia artificial''], [SelectTerm ''ia'', SelectSynonyms 1])"
  by code_simp

lemma strip_samples: "py_strip ''ia'' = ''ia''" "py_strip ''  '' = ''''"
  by code_simp+

text \<open>
  The example of the claim, for every reading order: the term \<open>ia\<close> with the synonym
  \<open>inteligencia artificial\<close> gives one of the two orderings of the group.
\<close>

lemma build_fts_query_ia:
  assumes "\<forall>xs. distinct xs \<longrightarrow> distinct (iter xs) \<and> set (iter xs) = set xs"
  shows "fst (build_fts_query iter [''ia'', ''  ''] sample_db)
         \<in> {''(ia OR '' @ [CHR 0x22] @ ''inteligencia artificial'' @ [CHR 0x22] @ '')'',
            ''('' @ [CHR 0x22] @ ''inteligencia artificial'' @ [CHR 0x22] @ '' OR ia)''}"
proof -
  let ?parts = "[''ia'', ''inteligencia artificial'']"
  have p: "py_set_add (py_lower ''inteligencia artificial'') [py_lower ''ia''] = ?parts"
    by code_simp
  have "distinct (iter ?parts) \<and> set (iter ?parts) = {''ia'', ''inteligencia artificial''}"
    using assms [rule_format, of ?parts] by simp
  then have "iter ?parts = [''ia'', ''inteligencia artificial'']
             \<or> iter ?parts = [''inteligencia artificial'', ''ia'']"
    by (intro two_orders) simp_all
  moreover have "fst (build_fts_query iter [''ia'', ''  ''] sample_db) = paren_group (iter ?parts)"
    by (simp add: build_fts_query_eq nonblank_def strip_samples get_synonyms_ia fts_group_eq p)
  ultimately show ?thesis
    by (auto simp: paren_group_def fts_quote_def)
qed

section \<open>Running the search\<close>

lemma join_not_Nil: "x \<noteq> [] \<Longrightarrow> join sep (x # xs) \<noteq> []"
  by (cases xs) auto

lemma build_fts_query_empty_iff:
  "fst (build_fts_query iter tms con) = '''' \<longleftrightarrow> (\<forall>t \<in> set tms. py_strip t = '''')"
proof -
  have "join '' OR '' (map f xs) = [] \<longleftrightarrow> xs = []" if "\<And>x. f x \<noteq> []" for f :: "string \<Rightarrow> string" and xs
    using that by (cases xs) (auto simp: join_not_Nil)
  then have "fst (build_fts_query iter tms con) = '''' \<longleftrightarrow> nonblank tms = []"
    by (simp add: build_fts_query_eq fts_group_def Let_def)
  then show ?thesis by (auto simp: nonblank_def filter_empty_conv)
qed

text \<open>
  Claim C9: with a non-empty match expression the ranked statement is run and, unless it
  raises \<open>OperationalError\<close>, its outcome is the result; when it raises
  \<open>OperationalError\<close> the unranked statement is run on the same expression and limit
  and its outcome is the result; when every interest is blank the expression is empty
  and the result is the empty list, with no statement run.
\<close>

theorem search_ranked_or_fallback:
  assumes "build_fts_query iter interests con = (m, tr)"
  shows "(m \<noteq> '''' \<and> engine (MatchRanked m top_n) \<noteq> Inl OperationalError
            \<longrightarrow> search iter engine con interests top_n
                = (engine (MatchRanked m top_n), tr @ [MatchRanked m top_n]))
         \<and> (m \<noteq> '''' \<and> engine (MatchRanked m top_n) = Inl OperationalError
            \<longrightarrow> search iter engine con interests top_n
                = (engine (MatchUnranked m top_n), tr @ [MatchRanked m top_n, MatchUnranked m top_n]))
         \<and> ((\<forall>t \<in> set interests. py_strip t = '''')
            \<longrightarrow> m = '''' \<and> search iter engine con interests top_n = (Inr [], []))"
proof -
  have e: "m = '''' \<and> tr = []" if "\<forall>t \<in> set interests. py_strip t = ''''"
  proof -
    from that have "nonblank interests = []" by (auto simp: nonblank_def filter_empty_conv)
    with assms show ?thesis by (simp add: build_fts_query_eq)
  qed
  show ?thesis
    using assms e by (auto simp: search_def split: sum.splits py_error.splits)
qed

theorem search_ranked_or_fallback_witness:
  "search insertion_order engine_bm25 sample_db [''Python''] 20
     = (Inr [(''https://example.edu/datos'', ''Ciencia de datos'')],
        [SelectTerm ''python'', SelectSynonyms 2, MatchRanked ''(python)'' 20])
   \<and> engine_no_bm25 (MatchRanked ''(python)'' 20) = Inl OperationalError
   \<and> search insertion_order engine_no_bm25 sample_db [''Python''] 20
     = (Inr [(''https://example.edu/datos'', ''Ciencia de datos'')],
        [SelectTerm ''python'', SelectSynonyms 2, MatchRanked ''(python)'' 20,
         MatchUnranked ''(python)'' 20])
   \<and> search insertion_order engine_no_bm25 sample_db ['' '', ''''] 20 = (Inr [], [])"
proof -
  have q: "build_fts_query insertion_order [''Python''] sample_db
           = (''(python)'', [SelectTerm ''python'', SelectSynonyms 2])"
    by code_simp
  have q0: "build_fts_query insertion_order ['' '', ''''] sample_db = ('''', [])"
    by code_simp
  have b: "\<forall>t \<in> set ['' '', '''']. py_strip t = ''''"
    by code_simp
  have r: "engine_bm25 (MatchRanked ''(python)'' 20)
           = Inr [(''https://example.edu/datos'', ''Ciencia de datos'')]"
    by (simp add: engine_bm25_def)
  have n: "engine_no_bm25 (MatchRanked ''(python)'' 20) = Inl OperationalError"
    by (simp add: engine_no_bm25_def)
  have u: "engine_no_bm25 (MatchUnranked ''(python)'' 20)
           = Inr [(''https://example.edu/datos'', ''Ciencia de datos'')]"
    by (simp add: engine_no_bm25_def)
  show ?thesis
    using search_ranked_or_fallback [OF q, of engine_bm25 20]
      search_ranked_or_fallback [OF q, of engine_no_bm25 20]
      search_ranked_or_fallback [OF q0, of engine_no_bm25 20] b r n u
    by simp
qed

section \<open>The crawl loop\<close>






section \<open>The pagination walker\<close>











text \<open>
  The scenario of the specification: three pages, each with two course cards and one
  card of another kind, and no link twice, give a link set of six.
\<close>

lemma walker_three_pages:
  "iterate_pages_and_collect_links page_driver ''https://example.edu/cat'' 3 1 0
   = Inr \<lparr>browser = 3,
          links = [''https://example.edu/a'', ''https://example.edu/b'', ''https://example.edu/c'',
                   ''https://example.edu/d'', ''https://example.edu/e'', ''https://example.edu/f''],
          last_first_title = ''page 3'',
          printed = [(1, 2, 2), (2, 2, 4), (3, 2, 6)]\<rparr>"
  by code_simp


end
